theory Spec2Isabelle
  imports Main "HOL-Library.Sublist" "HOL-Library.Char_ord" "HOL-Library.List_Lexorder"
begin

section \<open>Property graphs and Cypher values\<close>

text \<open>
  The repository is a collection of Cypher queries over a labelled property graph.
  A scalar property value is a number or a string; a property that is absent reads as
  Cypher's \<open>null\<close>, modelled as \<open>None\<close>.  A property map is an association list read
  with \<open>map_of\<close>.
\<close>

datatype val = VInt int | VStr string

type_synonym props = "(string \<times> val) list"

record node =
  nid :: nat
  labels :: "string set"
  nprops :: props

record rel =
  rsrc :: nat
  rtgt :: nat
  rtype :: string
  rprops :: props

record graph =
  nodes :: "node list"
  rels :: "rel list"

definition get_prop :: "props \<Rightarrow> string \<Rightarrow> val option" where
  "get_prop ps k = map_of ps k"

definition KEYS :: "props \<Rightarrow> string list" where
  "KEYS ps = map fst ps"

text \<open>What a query can fail with.\<close>

datatype error = VariableNotDefined string | TypeError | DivisionByZero | NullMergeProperty

subsection \<open>Three-valued logic\<close>

text \<open>
  Cypher predicates evaluate to true, false or null (\<open>None\<close>); a comparison with a null
  operand is null, and \<open>WHERE\<close> keeps a row only when its predicate is true.
\<close>

definition cy_eq :: "val option \<Rightarrow> val option \<Rightarrow> bool option" where
  "cy_eq a b = (case (a, b) of (Some x, Some y) \<Rightarrow> Some (x = y) | _ \<Rightarrow> None)"

definition cy_neq :: "val option \<Rightarrow> val option \<Rightarrow> bool option" where
  "cy_neq a b = (case (a, b) of (Some x, Some y) \<Rightarrow> Some (x \<noteq> y) | _ \<Rightarrow> None)"

fun cy_or :: "bool option \<Rightarrow> bool option \<Rightarrow> bool option" where
  "cy_or (Some True) _ = Some True"
| "cy_or _ (Some True) = Some True"
| "cy_or (Some False) (Some False) = Some False"
| "cy_or _ _ = None"

fun cy_and :: "bool option \<Rightarrow> bool option \<Rightarrow> bool option" where
  "cy_and (Some False) _ = Some False"
| "cy_and _ (Some False) = Some False"
| "cy_and (Some True) (Some True) = Some True"
| "cy_and _ _ = None"

definition cy_any :: "('a \<Rightarrow> bool option) \<Rightarrow> 'a list \<Rightarrow> bool option" where
  "cy_any P xs =
     (if \<exists>x \<in> set xs. P x = Some True then Some True
      else if \<exists>x \<in> set xs. P x = None then None
      else Some False)"

definition cy_where :: "bool option \<Rightarrow> bool" where
  "cy_where c = (c = Some True)"

section \<open>Pairwise property diff (temp.cy, second query)\<close>

text \<open>
  \<^verbatim>\<open>[k IN KEYS(propsA) WHERE propsA[k] <> propsB[k] | k] AS differingProperties\<close>
\<close>

definition differingProperties :: "props \<Rightarrow> props \<Rightarrow> string list" where
  "differingProperties propsA propsB =
     [k \<leftarrow> KEYS propsA. cy_where (cy_neq (get_prop propsA k) (get_prop propsB k))]"

text \<open>
  \<^verbatim>\<open>MATCH (a:Label {identifier: 'value1'}), (b:Label {identifier: 'value2'})\<close>
  \<^verbatim>\<open>WITH a, b, PROPERTIES(a) AS propsA, PROPERTIES(b) AS propsB\<close>
  \<^verbatim>\<open>RETURN a, b, [...] AS differingProperties\<close>
\<close>

definition match_identifier :: "graph \<Rightarrow> string \<Rightarrow> node list" where
  "match_identifier g v =
     [a \<leftarrow> nodes g. ''Label'' \<in> labels a \<and>
        cy_where (cy_eq (get_prop (nprops a) ''identifier'') (Some (VStr v)))]"

definition diff_query :: "graph \<Rightarrow> (nat \<times> nat \<times> string list) list" where
  "diff_query g =
     [(nid a, nid b, differingProperties (nprops a) (nprops b)).
        a \<leftarrow> match_identifier g ''value1'', b \<leftarrow> match_identifier g ''value2'']"

section \<open>Windowed deduplication (search_clean.cy)\<close>

text \<open>
  The entity carries two parallel list properties, \<open>search\<close> (texts) and
  \<open>timestamp\<close> (milliseconds).
\<close>

record log_node =
  log_labels :: "string set"
  search :: "string list"
  timestamp :: "int list"

text \<open>List indexing \<open>xs[i]\<close>: null when the index is out of range.\<close>

definition cy_index :: "'a list \<Rightarrow> nat \<Rightarrow> 'a option" where
  "cy_index xs i = (if i < length xs then Some (xs ! i) else None)"

text \<open>\<open>s CONTAINS sub\<close>: \<open>sub\<close> occurs in \<open>s\<close> as a contiguous substring.\<close>

fun cy_contains :: "string \<Rightarrow> string \<Rightarrow> bool" where
  "cy_contains [] sub = (sub = [])"
| "cy_contains (c # cs) sub = (prefix sub (c # cs) \<or> cy_contains cs sub)"

definition contains3 :: "string option \<Rightarrow> string option \<Rightarrow> bool option" where
  "contains3 a b =
     (case (a, b) of (Some s, Some sub) \<Rightarrow> Some (cy_contains s sub) | _ \<Rightarrow> None)"

text \<open>\<^verbatim>\<open>abs(n.timestamp[j] - searchTime) <= 60000\<close>\<close>

definition within_minute :: "int option \<Rightarrow> int option \<Rightarrow> bool option" where
  "within_minute tj ti =
     (case (tj, ti) of (Some a, Some b) \<Rightarrow> Some (\<bar>a - b\<bar> \<le> 60000) | _ \<Rightarrow> None)"

text \<open>
  The predicate under \<open>any(j IN range(0, size(n.search) - 1) WHERE ...)\<close>, with
  \<open>searchText = n.search[i]\<close> and \<open>searchTime = n.timestamp[i]\<close>.
\<close>

definition merge_pred :: "log_node \<Rightarrow> nat \<Rightarrow> nat \<Rightarrow> bool option" where
  "merge_pred n i j =
     cy_and (cy_and (Some (j \<noteq> i))
               (contains3 (cy_index (search n) j) (cy_index (search n) i)))
            (within_minute (cy_index (timestamp n) j) (cy_index (timestamp n) i))"

text \<open>
  \<^verbatim>\<open>UNWIND range(0, size(n.search) - 1) AS i ... WHERE any(...)\<close>
  \<^verbatim>\<open>WITH n, collect(i) AS indexesToMerge\<close>
\<close>

definition indexesToMerge :: "log_node \<Rightarrow> nat list" where
  "indexesToMerge n =
     [i \<leftarrow> [0..<length (search n)].
        cy_where (cy_any (merge_pred n i) [0..<length (search n)])]"

text \<open>
  \<^verbatim>\<open>[index IN range(0, size(xs) - 1) WHERE NOT index IN indexesToMerge | xs[index]]\<close>
\<close>

definition rebuild :: "'a list \<Rightarrow> nat list \<Rightarrow> 'a list" where
  "rebuild xs marked = [xs ! index. index \<leftarrow> [0..<length xs], index \<notin> set marked]"

text \<open>
  A node none of whose indices passes the \<open>WHERE\<close> contributes no row to
  \<open>WITH n, collect(i)\<close>, so the \<open>SET\<close> does not run for it.
\<close>

definition dedup_node :: "log_node \<Rightarrow> log_node" where
  "dedup_node n =
     (let idx = indexesToMerge n in
      if idx = [] then n
      else n\<lparr>search := rebuild (search n) idx, timestamp := rebuild (timestamp n) idx\<rparr>)"

definition search_clean :: "log_node list \<Rightarrow> log_node list" where
  "search_clean store = map (\<lambda>n. if ''Node'' \<in> log_labels n then dedup_node n else n) store"

text \<open>
  The indices the specification marks for removal: index \<open>i\<close> is removed when some
  other index \<open>j\<close> holds a text that contains \<open>values[i]\<close> as a substring, no more than
  60000 ms away.
\<close>

definition spec_removed :: "string list \<Rightarrow> int list \<Rightarrow> nat set" where
  "spec_removed vs ts =
     {i. i < length vs \<and>
        (\<exists>j. j < length vs \<and> j \<noteq> i \<and> sublist (vs ! i) (vs ! j) \<and>
             \<bar>ts ! i - ts ! j\<bar> \<le> 60000)}"

section \<open>Version update (unnamed/part_001)\<close>

text \<open>
  The query parameters \<open>$id\<close>, \<open>$name\<close>, \<open>$email\<close>; a parameter may be null.
  \<^verbatim>\<open>WITH $id AS nodeId, $name AS newName, $email AS newEmail\<close>
\<close>

record params =
  nodeId :: "val option"
  newName :: "val option"
  newEmail :: "val option"

text \<open>\<^verbatim>\<open>MATCH (current:Node:Current {id: nodeId})\<close>\<close>

definition current_of :: "graph \<Rightarrow> val option \<Rightarrow> node list" where
  "current_of g k =
     [current \<leftarrow> nodes g. ''Node'' \<in> labels current \<and> ''Current'' \<in> labels current \<and>
        cy_where (cy_eq (get_prop (nprops current) ''id'') k)]"

text \<open>\<^verbatim>\<open>WHERE current.name <> newName OR current.email <> newEmail\<close>\<close>

definition changed :: "params \<Rightarrow> node \<Rightarrow> bool" where
  "changed p current =
     cy_where (cy_or (cy_neq (get_prop (nprops current) ''name'') (newName p))
                     (cy_neq (get_prop (nprops current) ''email'') (newEmail p)))"

definition match_current :: "params \<Rightarrow> graph \<Rightarrow> node list" where
  "match_current p g = filter (changed p) (current_of g (nodeId p))"

text \<open>\<^verbatim>\<open>REMOVE current:Current\<close> and \<^verbatim>\<open>SET current:Historical\<close>, on the node of one row.\<close>

definition remove_label :: "string \<Rightarrow> nat \<Rightarrow> graph \<Rightarrow> graph" where
  "remove_label l i g =
     g\<lparr>nodes := map (\<lambda>n. if nid n = i then n\<lparr>labels := labels n - {l}\<rparr> else n) (nodes g)\<rparr>"

definition set_label :: "string \<Rightarrow> nat \<Rightarrow> graph \<Rightarrow> graph" where
  "set_label l i g =
     g\<lparr>nodes := map (\<lambda>n. if nid n = i then n\<lparr>labels := insert l (labels n)\<rparr> else n) (nodes g)\<rparr>"

text \<open>
  \<open>CREATE\<close> gives the new node an identity that no node of the store has.  A property
  written with a null value is not stored.
\<close>

definition fresh_nid :: "graph \<Rightarrow> nat" where
  "fresh_nid g = Suc (fold max (map nid (nodes g)) 0)"

fun mk_props :: "(string \<times> val option) list \<Rightarrow> props" where
  "mk_props [] = []"
| "mk_props ((k, None) # kvs) = mk_props kvs"
| "mk_props ((k, Some v) # kvs) = (k, v) # mk_props kvs"

definition create_node :: "string set \<Rightarrow> props \<Rightarrow> graph \<Rightarrow> graph \<times> nat" where
  "create_node ls ps g =
     (let i = fresh_nid g
      in (g\<lparr>nodes := nodes g @ [\<lparr>nid = i, labels = ls, nprops = ps\<rparr>]\<rparr>, i))"

definition create_rel :: "rel \<Rightarrow> graph \<Rightarrow> graph" where
  "create_rel r g = g\<lparr>rels := rels g @ [r]\<rparr>"

text \<open>
  \<^verbatim>\<open>CREATE (newNode:Node:Current {name: newName, email: newEmail, createdAt: timestamp()})\<close>
  once per row; the row gains the variable \<open>newNode\<close>.  \<open>timestamp()\<close> has one value
  \<open>now\<close> throughout a query.
\<close>

fun create_new_nodes :: "int \<Rightarrow> params \<Rightarrow> nat list \<Rightarrow> graph \<Rightarrow> graph \<times> (nat \<times> nat) list" where
  "create_new_nodes now p [] g = (g, [])"
| "create_new_nodes now p (current # rows) g =
     (let (g', newNode) =
            create_node {''Node'', ''Current''}
              (mk_props [(''name'', newName p), (''email'', newEmail p),
                         (''createdAt'', Some (VInt now))]) g;
          (g'', rows') = create_new_nodes now p rows g'
      in (g'', (current, newNode) # rows'))"

text \<open>\<^verbatim>\<open>CREATE (newNode)-[:PREVIOUS_VERSION {from: timestamp()}]->(current)\<close>\<close>

definition previous_version :: "int \<Rightarrow> nat \<times> nat \<Rightarrow> rel" where
  "previous_version now row =
     (case row of (current, newNode) \<Rightarrow>
        \<lparr>rsrc = newNode, rtgt = current, rtype = ''PREVIOUS_VERSION'',
         rprops = [(''from'', VInt now)]\<rparr>)"

text \<open>
  \<^verbatim>\<open>MATCH (current)-[rel]->(other) WHERE NOT type(rel) = 'PREVIOUS_VERSION'\<close>
  One row per outgoing relationship of \<open>current\<close>; \<open>other\<close> is \<open>rtgt rel\<close>.
\<close>

definition match_outgoing :: "graph \<Rightarrow> (nat \<times> nat) list \<Rightarrow> (nat \<times> nat \<times> rel) list" where
  "match_outgoing g rows =
     [(current, newNode, r). (current, newNode) \<leftarrow> rows,
        r \<leftarrow> rels g, rsrc r = current, rtype r \<noteq> ''PREVIOUS_VERSION'']"

definition remove_key :: "string \<Rightarrow> props \<Rightarrow> props" where
  "remove_key k ps = filter (\<lambda>kv. fst kv \<noteq> k) ps"

text \<open>
  The body of the \<open>FOREACH\<close>, in its order:
  \<^verbatim>\<open>CREATE (newNode)-[newRel:RELTYPE {from: timestamp()}]->(other)\<close>
  \<^verbatim>\<open>SET newRel = properties(rel)\<close> (replaces every property of \<open>newRel\<close>)
  \<^verbatim>\<open>REMOVE newRel.from, newRel.to\<close>
\<close>

definition clone_rel :: "int \<Rightarrow> nat \<Rightarrow> rel \<Rightarrow> rel" where
  "clone_rel now newNode r =
     (let newRel = \<lparr>rsrc = newNode, rtgt = rtgt r, rtype = ''RELTYPE'',
                     rprops = [(''from'', VInt now)]\<rparr>;
          newRel = newRel\<lparr>rprops := rprops r\<rparr>;
          newRel = newRel\<lparr>rprops := remove_key ''to'' (remove_key ''from'' (rprops newRel))\<rparr>
      in newRel)"

text \<open>
  \<^verbatim>\<open>FOREACH (ignoreMe IN CASE WHEN type(rel) = 'RELTYPE' THEN [1] ELSE [] END | ...)\<close>
\<close>

definition foreach_clone :: "int \<Rightarrow> nat \<times> nat \<times> rel \<Rightarrow> graph \<Rightarrow> graph" where
  "foreach_clone now row g =
     (case row of (current, newNode, r) \<Rightarrow>
        if rtype r = ''RELTYPE'' then create_rel (clone_rel now newNode r) g else g)"

text \<open>
  The whole query, clause by clause: each clause runs over all rows before the next
  one starts.  The result is the store after the query and the rows of
  \<^verbatim>\<open>RETURN newNode\<close>.
\<close>

definition update_query :: "int \<Rightarrow> params \<Rightarrow> graph \<Rightarrow> graph \<times> nat list" where
  "update_query now p g =
     (let rows1 = map nid (match_current p g);
          g1 = fold (remove_label ''Current'') rows1 g;
          g2 = fold (set_label ''Historical'') rows1 g1;
          (g3, rows2) = create_new_nodes now p rows1 g2;
          g4 = fold (\<lambda>row. create_rel (previous_version now row)) rows2 g3;
          rows3 = match_outgoing g4 rows2;
          g5 = fold (foreach_clone now) rows3 g4
      in (g5, map (\<lambda>row. fst (snd row)) rows3))"

text \<open>
  A store is well formed when node identities are unique and every relationship joins
  two nodes of the store.
\<close>

definition wf_graph :: "graph \<Rightarrow> bool" where
  "wf_graph g \<longleftrightarrow>
     distinct (map nid (nodes g)) \<and>
     list_all (\<lambda>r. rsrc r \<in> nid ` set (nodes g) \<and> rtgt r \<in> nid ` set (nodes g)) (rels g)"

text \<open>
  Names for what the query builds, used to state results: the node that \<open>CREATE\<close>
  makes, the relabelling of the matched nodes, the entities of a lineage (the nodes that
  carry its \<open>id\<close>), and a small store with one update.
\<close>

definition new_node :: "int \<Rightarrow> params \<Rightarrow> nat \<Rightarrow> node" where
  "new_node now p i =
     \<lparr>nid = i, labels = {''Node'', ''Current''},
      nprops = mk_props [(''name'', newName p), (''email'', newEmail p),
                         (''createdAt'', Some (VInt now))]\<rparr>"

definition retire :: "nat list \<Rightarrow> node \<Rightarrow> node" where
  "retire rows n =
     (if nid n \<in> set rows
      then n\<lparr>labels := insert ''Historical'' (labels n - {''Current''})\<rparr> else n)"

definition lineage :: "graph \<Rightarrow> val option \<Rightarrow> node list" where
  "lineage g k = [n \<leftarrow> nodes g. cy_where (cy_eq (get_prop (nprops n) ''id'') k)]"

text \<open>A sequence of updates, each with its time and parameters.\<close>

fun apply_updates :: "(int \<times> params) list \<Rightarrow> graph \<Rightarrow> graph" where
  "apply_updates [] g = g"
| "apply_updates (u # us) g = apply_updates us (fst (update_query (fst u) (snd u) g))"

definition example_old :: node where
  "example_old =
     \<lparr>nid = 0, labels = {''Node'', ''Current''},
      nprops = [(''id'', VInt 1), (''name'', VStr ''a''), (''email'', VStr ''x'')]\<rparr>"

definition example_store :: graph where
  "example_store =
     \<lparr>nodes = [example_old, \<lparr>nid = 1, labels = {''Team''}, nprops = []\<rparr>],
      rels = [\<lparr>rsrc = 0, rtgt = 1, rtype = ''RELTYPE'',
               rprops = [(''from'', VInt 5), (''role'', VStr ''lead'')]\<rparr>,
              \<lparr>rsrc = 0, rtgt = 1, rtype = ''LINKED_TO'', rprops = []\<rparr>]\<rparr>"

definition example_update :: params where
  "example_update =
     \<lparr>nodeId = Some (VInt 1), newName = Some (VStr ''b''), newEmail = Some (VStr ''x'')\<rparr>"

definition same_update :: params where
  "same_update =
     \<lparr>nodeId = Some (VInt 1), newName = Some (VStr ''a''), newEmail = Some (VStr ''x'')\<rparr>"

definition next_update :: params where
  "next_update =
     \<lparr>nodeId = Some (VInt 1), newName = Some (VStr ''c''), newEmail = Some (VStr ''x'')\<rparr>"

text \<open>A store whose current node of lineage 1 has no \<open>name\<close> property.\<close>

definition nameless_old :: node where
  "nameless_old =
     \<lparr>nid = 0, labels = {''Node'', ''Current''},
      nprops = [(''id'', VInt 1), (''email'', VStr ''x'')]\<rparr>"

definition nameless_store :: graph where
  "nameless_store = \<lparr>nodes = [nameless_old], rels = []\<rparr>"

definition empty_store :: graph where
  "empty_store = \<lparr>nodes = [], rels = []\<rparr>"

section \<open>Chain-weighted difference (temp.cy, first query)\<close>

subsection \<open>Variable scope\<close>

text \<open>
  Cypher checks every variable reference before a query runs.  \<open>MATCH\<close> adds the
  variables of its pattern to the scope.  \<open>WITH\<close> and \<open>RETURN\<close> evaluate each projected
  expression in the scope they receive, so an expression cannot use an alias that the
  same clause introduces, and after \<open>WITH\<close> the scope is exactly the projected names.
  A clause is described by its projections: the variables each expression refers to
  (variables bound inside the expression, such as \<open>x\<close>, \<open>i\<close>, \<open>total\<close> and \<open>d\<close>, are
  not references) and the name it is given.
\<close>

datatype clause =
  MATCH "string list"
| WITH "(string list \<times> string) list"
| RETURN "(string list \<times> string) list"

fun undefined_in :: "string list \<Rightarrow> string list \<Rightarrow> string option" where
  "undefined_in scope [] = None"
| "undefined_in scope (v # vs) = (if v \<in> set scope then undefined_in scope vs else Some v)"

fun check_scope :: "string list \<Rightarrow> clause list \<Rightarrow> string option" where
  "check_scope scope [] = None"
| "check_scope scope (MATCH vs # cs) = check_scope (scope @ vs) cs"
| "check_scope scope (WITH items # cs) =
     (case undefined_in scope (concat (map fst items)) of
        Some v \<Rightarrow> Some v
      | None \<Rightarrow> check_scope (map snd items) cs)"
| "check_scope scope (RETURN items # cs) =
     (case undefined_in scope (concat (map fst items)) of
        Some v \<Rightarrow> Some v
      | None \<Rightarrow> check_scope (map snd items) cs)"

text \<open>
  The five clauses of the query:
  \<^verbatim>\<open>MATCH (n)-[:LINKED_TO*]->(m)\<close>
  \<^verbatim>\<open>WITH n, m, [(n)-[:LINKED_TO*]->(x) | x.value] AS values\<close>
  \<^verbatim>\<open>WITH n, m, values, size(values) as chain_length,\<close>
  \<^verbatim>\<open>     [i IN range(0, chain_length - 2) | abs(values[i] - values[i + 1])] as differences\<close>
  \<^verbatim>\<open>WITH n, m, reduce(total = 0, d in differences | total + d) as total_difference\<close>
  \<^verbatim>\<open>RETURN n, m, total_difference /\<close>
  \<^verbatim>\<open>     (CASE WHEN chain_length > 1 THEN chain_length - 1 ELSE 1 END) as average_difference\<close>
\<close>

definition average_difference_clauses :: "clause list" where
  "average_difference_clauses =
     [MATCH [''n'', ''m''],
      WITH [([''n''], ''n''), ([''m''], ''m''), ([''n''], ''values'')],
      WITH [([''n''], ''n''), ([''m''], ''m''), ([''values''], ''values''),
            ([''values''], ''chain_length''),
            ([''chain_length'', ''values'', ''values''], ''differences'')],
      WITH [([''n''], ''n''), ([''m''], ''m''), ([''differences''], ''total_difference'')],
      RETURN [([''n''], ''n''), ([''m''], ''m''),
              ([''total_difference'', ''chain_length'', ''chain_length''], ''average_difference'')]]"

subsection \<open>Evaluation\<close>

text \<open>
  \<open>(n)-[:LINKED_TO*]->(x)\<close>: one match per path of one or more \<open>LINKED_TO\<close>
  relationships from \<open>n\<close> that uses no relationship twice; \<open>x\<close> is the end of the path.
  A path uses at most every relationship once, which bounds its length.
\<close>

fun path_ends :: "rel list \<Rightarrow> nat \<Rightarrow> nat \<Rightarrow> nat list \<Rightarrow> nat list" where
  "path_ends rs 0 n used = []"
| "path_ends rs (Suc k) n used =
     concat (map (\<lambda>i. if i \<notin> set used \<and> rsrc (rs ! i) = n \<and> rtype (rs ! i) = ''LINKED_TO''
                       then rtgt (rs ! i) # path_ends rs k (rtgt (rs ! i)) (i # used)
                       else [])
              [0..<length rs])"

definition linked_to :: "graph \<Rightarrow> nat \<Rightarrow> nat list" where
  "linked_to g n = path_ends (rels g) (length (rels g)) n []"

definition node_value :: "graph \<Rightarrow> nat \<Rightarrow> val option" where
  "node_value g x =
     (case [n \<leftarrow> nodes g. nid n = x] of [] \<Rightarrow> None | n # _ \<Rightarrow> get_prop (nprops n) ''value'')"

text \<open>Arithmetic: a null operand gives null, a string operand is a type error.\<close>

fun abs_diff :: "val option \<Rightarrow> val option \<Rightarrow> error + int option" where
  "abs_diff (Some (VInt a)) (Some (VInt b)) = Inr (Some \<bar>a - b\<bar>)"
| "abs_diff (Some (VStr s)) _ = Inl TypeError"
| "abs_diff _ (Some (VStr s)) = Inl TypeError"
| "abs_diff _ _ = Inr None"

fun cy_add :: "int option \<Rightarrow> int option \<Rightarrow> int option" where
  "cy_add (Some a) (Some b) = Some (a + b)"
| "cy_add _ _ = None"

text \<open>Integer division truncates toward zero; dividing by zero is an error.\<close>

fun cy_div :: "int option \<Rightarrow> int \<Rightarrow> error + int option" where
  "cy_div None b = (if b = 0 then Inl DivisionByZero else Inr None)"
| "cy_div (Some a) b =
     (if b = 0 then Inl DivisionByZero else Inr (Some (sgn a * sgn b * (\<bar>a\<bar> div \<bar>b\<bar>))))"

fun first_error :: "(error + 'a) list \<Rightarrow> error + 'a list" where
  "first_error [] = Inr []"
| "first_error (Inl e # xs) = Inl e"
| "first_error (Inr x # xs) = (case first_error xs of Inl e \<Rightarrow> Inl e | Inr ys \<Rightarrow> Inr (x # ys))"

text \<open>\<open>values[i]\<close> for an integer index that is not negative.\<close>

definition value_at :: "val option list \<Rightarrow> int \<Rightarrow> val option" where
  "value_at vs i = (if 0 \<le> i \<and> i < int (length vs) then vs ! nat i else None)"

text \<open>
  \<^verbatim>\<open>[i IN range(0, chain_length - 2) | abs(values[i] - values[i + 1])]\<close>
\<close>

definition differences :: "val option list \<Rightarrow> int \<Rightarrow> error + int option list" where
  "differences vs chain_length =
     first_error [abs_diff (value_at vs i) (value_at vs (i + 1)). i \<leftarrow> [0..chain_length - 2]]"

text \<open>\<^verbatim>\<open>reduce(total = 0, d in differences | total + d)\<close>\<close>

definition total_difference :: "int option list \<Rightarrow> int option" where
  "total_difference ds = fold (\<lambda>d total. cy_add total d) ds (Some 0)"

text \<open>\<^verbatim>\<open>CASE WHEN chain_length > 1 THEN chain_length - 1 ELSE 1 END\<close>\<close>

definition divisor :: "int \<Rightarrow> int" where
  "divisor chain_length = (if chain_length > 1 then chain_length - 1 else 1)"

definition average_difference :: "val option list \<Rightarrow> error + int option" where
  "average_difference vs =
     (let chain_length = int (length vs)
      in case differences vs chain_length of
           Inl e \<Rightarrow> Inl e
         | Inr ds \<Rightarrow> cy_div (total_difference ds) (divisor chain_length))"

text \<open>One row for each pair \<open>(n, m)\<close> of the \<open>MATCH\<close>.\<close>

definition average_rows :: "graph \<Rightarrow> error + (nat \<times> nat \<times> int option) list" where
  "average_rows g =
     first_error
       [case average_difference (map (node_value g) (linked_to g (nid n))) of
          Inl e \<Rightarrow> Inl e
        | Inr a \<Rightarrow> Inr (nid n, m, a).
        n \<leftarrow> nodes g, m \<leftarrow> linked_to g (nid n)]"

text \<open>The query is checked, then run.\<close>

definition average_difference_query :: "graph \<Rightarrow> error + (nat \<times> nat \<times> int option) list" where
  "average_difference_query g =
     (case check_scope [] average_difference_clauses of
        Some v \<Rightarrow> Inl (VariableNotDefined v)
      | None \<Rightarrow> average_rows g)"

text \<open>A chain of three entities with values 10, 12 and 9, and a chain of one link.\<close>

definition chain_store :: graph where
  "chain_store =
     \<lparr>nodes = [\<lparr>nid = 0, labels = {}, nprops = [(''value'', VInt 10)]\<rparr>,
               \<lparr>nid = 1, labels = {}, nprops = [(''value'', VInt 12)]\<rparr>,
               \<lparr>nid = 2, labels = {}, nprops = [(''value'', VInt 9)]\<rparr>],
      rels = [\<lparr>rsrc = 0, rtgt = 1, rtype = ''LINKED_TO'', rprops = []\<rparr>,
              \<lparr>rsrc = 1, rtgt = 2, rtype = ''LINKED_TO'', rprops = []\<rparr>]\<rparr>"

definition link_store :: graph where
  "link_store =
     \<lparr>nodes = [\<lparr>nid = 0, labels = {}, nprops = [(''value'', VInt 10)]\<rparr>,
               \<lparr>nid = 1, labels = {}, nprops = [(''value'', VInt 12)]\<rparr>],
      rels = [\<lparr>rsrc = 0, rtgt = 1, rtype = ''LINKED_TO'', rprops = []\<rparr>]\<rparr>"

section \<open>First version and in-place update (compare.sh, the LOAD CSV query)\<close>

text \<open>
  A record of the CSV file maps header names to text fields; a missing field is null.
  The query is a template: its \<open>...\<close> stand for further properties, and it is
  modelled with the two it names, \<open>property1\<close> and \<open>property2\<close>.
\<close>

type_synonym csv_row = "(string \<times> string) list"

definition csv_field :: "csv_row \<Rightarrow> string \<Rightarrow> val option" where
  "csv_field row k = map_option VStr (map_of row k)"

text \<open>
  \<^verbatim>\<open>MERGE (n:YourLabel {uniqueProperty: row.uniqueProperty})\<close>
  binds \<open>n\<close> to every node that matches, and creates the node when none does.  A null
  property value is an error.
\<close>

definition merge_node :: "csv_row \<Rightarrow> graph \<Rightarrow> error + graph \<times> (nat \<times> csv_row) list" where
  "merge_node row g =
     (case csv_field row ''uniqueProperty'' of
        None \<Rightarrow> Inl NullMergeProperty
      | Some v \<Rightarrow>
          (let ms = [n \<leftarrow> nodes g. ''YourLabel'' \<in> labels n \<and>
                       cy_where (cy_eq (get_prop (nprops n) ''uniqueProperty'') (Some v))]
           in if ms = []
              then (let (g', n) = create_node {''YourLabel''} [(''uniqueProperty'', v)] g
                    in Inr (g', [(n, row)]))
              else Inr (g, map (\<lambda>n. (nid n, row)) ms)))"

text \<open>The \<open>MERGE\<close> clause over the records of the file, in their order.\<close>

fun merge_rows :: "csv_row list \<Rightarrow> graph \<Rightarrow> error + graph \<times> (nat \<times> csv_row) list" where
  "merge_rows [] g = Inr (g, [])"
| "merge_rows (row # csv) g =
     (case merge_node row g of
        Inl e \<Rightarrow> Inl e
      | Inr (g', rows) \<Rightarrow>
          (case merge_rows csv g' of
             Inl e \<Rightarrow> Inl e
           | Inr (g'', rows') \<Rightarrow> Inr (g'', rows @ rows')))"

text \<open>
  \<^verbatim>\<open>OPTIONAL MATCH (n)-[r:PREVIOUS_VERSION]->(old:YourLabel_History)\<close>
  One row per match, and one row with \<open>old\<close> null when there is none.
\<close>

definition history_of :: "graph \<Rightarrow> nat \<Rightarrow> node list" where
  "history_of g n =
     [old. r \<leftarrow> rels g, rsrc r = n, rtype r = ''PREVIOUS_VERSION'',
           old \<leftarrow> nodes g, nid old = rtgt r, ''YourLabel_History'' \<in> labels old]"

definition optional_match ::
    "graph \<Rightarrow> (nat \<times> csv_row) list \<Rightarrow> (nat \<times> csv_row \<times> node option) list" where
  "optional_match g rows =
     concat (map (\<lambda>(n, row).
       if history_of g n = [] then [(n, row, None)]
       else map (\<lambda>old. (n, row, Some old)) (history_of g n)) rows)"

text \<open>
  \<^verbatim>\<open>ORDER BY old.version DESC LIMIT 1\<close>
  In ascending order a string comes before a number and null comes last, so in
  descending order null comes first.  \<open>LIMIT 1\<close> keeps one row of the whole result;
  among rows of equal rank the earliest is kept.
\<close>

fun cy_less :: "val option \<Rightarrow> val option \<Rightarrow> bool" where
  "cy_less (Some (VStr s)) (Some (VStr t)) = (s < t)"
| "cy_less (Some (VStr s)) (Some (VInt b)) = True"
| "cy_less (Some (VInt a)) (Some (VInt b)) = (a < b)"
| "cy_less (Some (VInt a)) (Some (VStr t)) = False"
| "cy_less (Some v) None = True"
| "cy_less None w = False"

definition old_version :: "nat \<times> csv_row \<times> node option \<Rightarrow> val option" where
  "old_version r =
     (case snd (snd r) of None \<Rightarrow> None | Some old \<Rightarrow> get_prop (nprops old) ''version'')"

definition order_desc_limit1 ::
    "(nat \<times> csv_row \<times> node option) list \<Rightarrow> (nat \<times> csv_row \<times> node option) list" where
  "order_desc_limit1 rows =
     (case rows of
        [] \<Rightarrow> []
      | r # rs \<Rightarrow>
          [fold (\<lambda>c best. if cy_less (old_version best) (old_version c) then c else best) rs r])"

text \<open>
  \<^verbatim>\<open>CASE WHEN old IS NULL OR (old.property1 <> row.csvProperty1 OR\<close>
  \<^verbatim>\<open>               old.property2 <> row.csvProperty2) THEN true ELSE false END AS hasChanged\<close>
\<close>

definition hasChanged :: "csv_row \<Rightarrow> node option \<Rightarrow> bool" where
  "hasChanged row old =
     cy_where
       (cy_or (Some (old = None))
          (cy_or (cy_neq (case old of None \<Rightarrow> None | Some n \<Rightarrow> get_prop (nprops n) ''property1'')
                         (csv_field row ''csvProperty1''))
                 (cy_neq (case old of None \<Rightarrow> None | Some n \<Rightarrow> get_prop (nprops n) ''property2'')
                         (csv_field row ''csvProperty2''))))"

text \<open>
  \<^verbatim>\<open>FOREACH(ignoreMe IN CASE WHEN hasChanged AND old IS NOT NULL THEN [1] ELSE [] END |\<close>
  \<^verbatim>\<open>  REMOVE n:CurrentVersion\<close>
  \<^verbatim>\<open>  CREATE (n)-[:PREVIOUS_VERSION {timestamp: timestamp()}]->(old))\<close>
\<close>

definition foreach_version :: "int \<Rightarrow> nat \<times> csv_row \<times> node option \<Rightarrow> graph \<Rightarrow> graph" where
  "foreach_version now r g =
     (case r of (n, row, old) \<Rightarrow>
        (case old of
           None \<Rightarrow> g
         | Some prev \<Rightarrow>
             if hasChanged row old
             then create_rel \<lparr>rsrc = n, rtgt = nid prev, rtype = ''PREVIOUS_VERSION'',
                              rprops = [(''timestamp'', VInt now)]\<rparr>
                    (remove_label ''CurrentVersion'' n g)
             else g))"

text \<open>
  \<^verbatim>\<open>SET n.property1 = row.csvProperty1, n.property2 = row.csvProperty2\<close>
  Setting a property to null removes it.
\<close>

fun put_key :: "string \<Rightarrow> val \<Rightarrow> props \<Rightarrow> props" where
  "put_key k v [] = [(k, v)]"
| "put_key k v (kv # ps) = (if fst kv = k then (k, v) # ps else kv # put_key k v ps)"

definition set_prop :: "string \<Rightarrow> val option \<Rightarrow> nat \<Rightarrow> graph \<Rightarrow> graph" where
  "set_prop k v i g =
     g\<lparr>nodes := map (\<lambda>n. if nid n = i
                           then n\<lparr>nprops := (case v of None \<Rightarrow> remove_key k (nprops n)
                                                | Some x \<Rightarrow> put_key k x (nprops n))\<rparr>
                           else n) (nodes g)\<rparr>"

definition set_row :: "nat \<times> csv_row \<times> node option \<Rightarrow> graph \<Rightarrow> graph" where
  "set_row r g =
     (case r of (n, row, old) \<Rightarrow>
        set_label ''CurrentVersion'' n
          (set_prop ''property2'' (csv_field row ''csvProperty2'') n
             (set_prop ''property1'' (csv_field row ''csvProperty1'') n g)))"

text \<open>The whole query over the records of the file.\<close>

definition ingest_query :: "int \<Rightarrow> csv_row list \<Rightarrow> graph \<Rightarrow> error + graph" where
  "ingest_query now csv g =
     (case merge_rows csv g of
        Inl e \<Rightarrow> Inl e
      | Inr (g1, rows1) \<Rightarrow>
          (let rows2 = order_desc_limit1 (optional_match g1 rows1);
               g2 = fold (foreach_version now) rows2 g1;
               g3 = fold set_row rows2 g2
           in Inr g3))"

definition example_record :: csv_row where
  "example_record =
     [(''uniqueProperty'', ''m1''), (''csvProperty1'', ''a''), (''csvProperty2'', ''x'')]"

section \<open>Batched bulk delete (ahh.cy)\<close>

text \<open>
  \<^verbatim>\<open>CALL apoc.periodic.iterate("MATCH (n) RETURN n", "DETACH DELETE n",\<close>
  \<^verbatim>\<open>  {batchSize: 500, iterateList: true, parallel: false})\<close>
  The selection \<open>MATCH (n) RETURN n\<close> is every node of the store, and the mutation
  \<open>DETACH DELETE n\<close> removes a node together with every relationship that starts or
  ends at it.
\<close>

definition match_all :: "graph \<Rightarrow> nat list" where
  "match_all g = map nid (nodes g)"

definition detach_delete :: "graph \<Rightarrow> nat \<Rightarrow> graph" where
  "detach_delete g i =
     \<lparr>nodes = [n \<leftarrow> nodes g. nid n \<noteq> i],
      rels = [r \<leftarrow> rels g. rsrc r \<noteq> i \<and> rtgt r \<noteq> i]\<rparr>"

text \<open>
  Modelled from the spec: the procedure \<open>apoc.periodic.iterate\<close> is called by the
  repository but its code is not part of it.  The specification of the Batched Mutation
  Executor says that it repeatedly selects up to \<open>batch_size\<close> unprocessed matches,
  applies the mutation to that batch as one transaction, and continues until no matches
  remain; with \<open>parallel = false\<close> the batches are applied strictly one after the other.
  The state of the loop is the list of matches not yet processed, the store, and the
  batches applied so far (latest first).  With \<open>batch_size = 0\<close> and a match left the
  loop never ends, and the result is \<open>None\<close>.
\<close>

partial_function (option) run_batches ::
    "nat \<Rightarrow> ('s \<Rightarrow> 'e \<Rightarrow> 's) \<Rightarrow> 'e list \<Rightarrow> 's \<Rightarrow> 'e list list \<Rightarrow> ('e list list \<times> 's) option" where
  "run_batches batch_size mutate unprocessed s applied =
     (if unprocessed = [] then Some (rev applied, s)
      else run_batches batch_size mutate (drop batch_size unprocessed)
             (fold (\<lambda>e s. mutate s e) (take batch_size unprocessed) s)
             (take batch_size unprocessed # applied))"

definition bulk_delete :: "graph \<Rightarrow> (nat list list \<times> graph) option" where
  "bulk_delete g = run_batches 500 detach_delete (match_all g) g []"

text \<open>The sizes of the batches for \<open>n\<close> matches: full batches, then the remainder.\<close>

definition batch_sizes :: "nat \<Rightarrow> nat \<Rightarrow> nat list" where
  "batch_sizes b n = replicate (n div b) b @ (if n mod b = 0 then [] else [n mod b])"

text \<open>A store of 1237 nodes.\<close>

definition big_store :: graph where
  "big_store = \<lparr>nodes = map (\<lambda>i. \<lparr>nid = i, labels = {}, nprops = []\<rparr>) [0..<1237], rels = []\<rparr>"

section \<open>Theorems\<close>

subsection \<open>Pairwise property diff\<close>

lemma cy_neq_true: "cy_where (cy_neq a b) \<longleftrightarrow> (\<exists>x y. a = Some x \<and> b = Some y \<and> x \<noteq> y)"
  by (auto simp: cy_where_def cy_neq_def split: option.splits)

text \<open>
  C7. The pairwise property diff returns exactly the keys that both property maps hold
  with different values; a key that only one of the maps holds is never returned.
\<close>

theorem C7_differing_properties:
  "set (differingProperties propsA propsB) =
     {k. \<exists>x y. map_of propsA k = Some x \<and> map_of propsB k = Some y \<and> x \<noteq> y}"
proof -
  have "\<And>k x. map_of propsA k = Some x \<Longrightarrow> k \<in> fst ` set propsA"
    by (metis map_of_eq_None_iff option.distinct(1))
  then show ?thesis
    by (auto simp: differingProperties_def KEYS_def get_prop_def cy_neq_true)
qed

theorem C7_differing_properties_witness:
  "set (differingProperties [(''x'', VInt 1), (''y'', VInt 2), (''z'', VInt 0)]
                            [(''x'', VInt 1), (''y'', VInt 3), (''w'', VInt 0)]) = {''y''}"
proof -
  have "differingProperties [(''x'', VInt 1), (''y'', VInt 2), (''z'', VInt 0)]
          [(''x'', VInt 1), (''y'', VInt 3), (''w'', VInt 0)] = [''y'']"
    by (simp add: differingProperties_def KEYS_def get_prop_def cy_where_def cy_neq_def)
  moreover note C7_differing_properties
    [of "[(''x'', VInt 1), (''y'', VInt 2), (''z'', VInt 0)]"
        "[(''x'', VInt 1), (''y'', VInt 3), (''w'', VInt 0)]"]
  ultimately show ?thesis by simp
qed

subsection \<open>Windowed deduplication\<close>

lemma cy_contains_sublist: "cy_contains s sub \<longleftrightarrow> sublist sub s"
proof (induction s)
  case Nil
  then show ?case by auto
next
  case (Cons c cs)
  show ?case
  proof (cases sub)
    case Nil
    then show ?thesis by simp
  next
    case (Cons a as)
    with Cons.IH show ?thesis by (simp add: sublist_Cons_right)
  qed
qed

lemma rebuild_nths: "rebuild xs marked = nths xs (- set marked)"
proof -
  have z: "zip xs [0..<length xs] = map (\<lambda>i. (xs ! i, i)) [0..<length xs]"
    by (rule nth_equalityI) auto
  have c: "concat (map (\<lambda>i. if P i then [f i] else []) is) = map f (filter P is)"
    for P :: "nat \<Rightarrow> bool" and f :: "nat \<Rightarrow> 'a" and "is"
    by (induction "is") auto
  show ?thesis
    unfolding rebuild_def nths_def z c
    by (simp add: filter_map comp_def)
qed

lemma cy_any_true: "cy_where (cy_any P xs) \<longleftrightarrow> (\<exists>x \<in> set xs. P x = Some True)"
  by (auto simp: cy_where_def cy_any_def)

lemma cy_and_true: "cy_and a b = Some True \<longleftrightarrow> a = Some True \<and> b = Some True"
  by (cases "(a, b)" rule: cy_and.cases) auto

lemma merge_pred_true:
  assumes "length (search n) = length (timestamp n)" "i < length (search n)" "j < length (search n)"
  shows "merge_pred n i j = Some True \<longleftrightarrow>
     j \<noteq> i \<and> sublist (search n ! i) (search n ! j) \<and> \<bar>timestamp n ! i - timestamp n ! j\<bar> \<le> 60000"
  using assms
  by (auto simp: merge_pred_def cy_and_true contains3_def within_minute_def cy_index_def
      cy_contains_sublist abs_minus_commute)

lemma set_indexesToMerge:
  assumes "length (search n) = length (timestamp n)"
  shows "set (indexesToMerge n) = spec_removed (search n) (timestamp n)"
  using assms
  by (auto simp: indexesToMerge_def spec_removed_def cy_any_true merge_pred_true Bex_def)

lemma subseq_nths_self: "subseq (nths xs A) xs"
proof -
  have "subseq (map fst (filter (\<lambda>p. snd p \<in> A) (zip xs [0..<length xs])))
          (map fst (zip xs [0..<length xs]))"
    by (intro subseq_map subseq_filter_left)
  then show ?thesis by (simp add: nths_def)
qed

text \<open>
  C8. For an entity whose \<open>search\<close> and \<open>timestamp\<close> lists have equal length, the
  query removes exactly the indices that the specification marks (\<open>spec_removed\<close>):
  both lists are rebuilt from the remaining indices in their original order, each result
  is a subsequence of the original, and the two results have equal length.
\<close>

theorem C8_windowed_dedup:
  assumes "length (search n) = length (timestamp n)"
  shows "search (dedup_node n) = nths (search n) (- spec_removed (search n) (timestamp n)) \<and>
         timestamp (dedup_node n) = nths (timestamp n) (- spec_removed (search n) (timestamp n)) \<and>
         subseq (search (dedup_node n)) (search n) \<and>
         subseq (timestamp (dedup_node n)) (timestamp n) \<and>
         length (search (dedup_node n)) = length (timestamp (dedup_node n))"
proof -
  let ?R = "spec_removed (search n) (timestamp n)"
  have R: "set (indexesToMerge n) = ?R"
    by (rule set_indexesToMerge [OF assms])
  have s: "search (dedup_node n) = nths (search n) (- ?R)"
  proof (cases "indexesToMerge n = []")
    case True
    with R have "?R = {}" by simp
    with True show ?thesis by (simp add: dedup_node_def nths_all)
  next
    case False
    then show ?thesis by (simp add: dedup_node_def rebuild_nths R)
  qed
  have t: "timestamp (dedup_node n) = nths (timestamp n) (- ?R)"
  proof (cases "indexesToMerge n = []")
    case True
    with R have "?R = {}" by simp
    with True show ?thesis by (simp add: dedup_node_def nths_all)
  next
    case False
    then show ?thesis by (simp add: dedup_node_def rebuild_nths R)
  qed
  have l: "length (nths (search n) (- ?R)) = length (nths (timestamp n) (- ?R))"
    using assms by (simp add: length_nths)
  show ?thesis
    unfolding s t using l by (simp add: subseq_nths_self)
qed

theorem C8_windowed_dedup_witness:
  "length (search \<lparr>log_labels = {''Node''}, search = [''foo bar'', ''foo'', ''baz''],
                    timestamp = [0, 1000, 120000]\<rparr>) =
   length (timestamp \<lparr>log_labels = {''Node''}, search = [''foo bar'', ''foo'', ''baz''],
                    timestamp = [0, 1000, 120000]\<rparr>) \<and>
   dedup_node \<lparr>log_labels = {''Node''}, search = [''foo bar'', ''foo'', ''baz''],
                timestamp = [0, 1000, 120000]\<rparr> =
     \<lparr>log_labels = {''Node''}, search = [''foo bar'', ''baz''], timestamp = [0, 120000]\<rparr> \<and>
   search (dedup_node \<lparr>log_labels = {''Node''}, search = [''foo bar'', ''foo'', ''baz''],
                timestamp = [0, 1000, 120000]\<rparr>) =
     nths [''foo bar'', ''foo'', ''baz''] (- spec_removed [''foo bar'', ''foo'', ''baz''] [0, 1000, 120000])"
proof -
  let ?n = "\<lparr>log_labels = {''Node''}, search = [''foo bar'', ''foo'', ''baz''],
             timestamp = [0, 1000, 120000]\<rparr>"
  have h: "length (search ?n) = length (timestamp ?n)"
    by simp
  have e: "dedup_node ?n =
      \<lparr>log_labels = {''Node''}, search = [''foo bar'', ''baz''], timestamp = [0, 120000]\<rparr>"
    by (simp add: dedup_node_def indexesToMerge_def cy_where_def cy_any_def merge_pred_def
        contains3_def within_minute_def cy_index_def rebuild_def)
  have r: "search (dedup_node ?n) =
      nths (search ?n) (- spec_removed (search ?n) (timestamp ?n))"
    using C8_windowed_dedup [OF h] by blast
  show ?thesis
  proof (intro conjI)
    show "length (search ?n) = length (timestamp ?n)" by (rule h)
    show "dedup_node ?n =
      \<lparr>log_labels = {''Node''}, search = [''foo bar'', ''baz''], timestamp = [0, 120000]\<rparr>"
      by (rule e)
    show "search (dedup_node ?n) =
      nths [''foo bar'', ''foo'', ''baz''] (- spec_removed [''foo bar'', ''foo'', ''baz''] [0, 1000, 120000])"
      using r by simp
  qed
qed

text \<open>Over a store, the query rewrites the nodes labelled \<open>Node\<close> and no other.\<close>

lemma search_clean_nth:
  "i < length store \<Longrightarrow>
   search_clean store ! i =
     (if ''Node'' \<in> log_labels (store ! i) then dedup_node (store ! i) else store ! i)"
  by (simp add: search_clean_def)

subsection \<open>Version update: the shape of the store after the query\<close>

lemma fold_remove_label:
  "fold (remove_label l) rows g =
     g\<lparr>nodes := map (\<lambda>n. if nid n \<in> set rows then n\<lparr>labels := labels n - {l}\<rparr> else n) (nodes g)\<rparr>"
proof (induction rows arbitrary: g)
  case Nil
  then show ?case by (simp add: map_idI)
next
  case (Cons i rows)
  have "fold (remove_label l) (i # rows) g = fold (remove_label l) rows (remove_label l i g)"
    by simp
  also have "\<dots> = (remove_label l i g)\<lparr>nodes :=
      map (\<lambda>n. if nid n \<in> set rows then n\<lparr>labels := labels n - {l}\<rparr> else n)
        (nodes (remove_label l i g))\<rparr>"
    by (rule Cons.IH)
  also have "\<dots> = g\<lparr>nodes :=
      map (\<lambda>n. if nid n \<in> set (i # rows) then n\<lparr>labels := labels n - {l}\<rparr> else n) (nodes g)\<rparr>"
    by (auto simp: remove_label_def)
  finally show ?case .
qed

lemma fold_set_label:
  "fold (set_label l) rows g =
     g\<lparr>nodes := map (\<lambda>n. if nid n \<in> set rows then n\<lparr>labels := insert l (labels n)\<rparr> else n) (nodes g)\<rparr>"
proof (induction rows arbitrary: g)
  case Nil
  then show ?case by (simp add: map_idI)
next
  case (Cons i rows)
  have "fold (set_label l) (i # rows) g = fold (set_label l) rows (set_label l i g)"
    by simp
  also have "\<dots> = (set_label l i g)\<lparr>nodes :=
      map (\<lambda>n. if nid n \<in> set rows then n\<lparr>labels := insert l (labels n)\<rparr> else n)
        (nodes (set_label l i g))\<rparr>"
    by (rule Cons.IH)
  also have "\<dots> = g\<lparr>nodes :=
      map (\<lambda>n. if nid n \<in> set (i # rows) then n\<lparr>labels := insert l (labels n)\<rparr> else n) (nodes g)\<rparr>"
    by (auto simp: set_label_def)
  finally show ?case .
qed

lemma fold_max_ge: "(m::nat) \<le> fold max xs m"
proof (induction xs arbitrary: m)
  case Nil
  then show ?case by simp
next
  case (Cons a xs)
  have "m \<le> max a m" by simp
  also have "\<dots> \<le> fold max xs (max a m)" by (rule Cons.IH)
  finally show ?case by simp
qed

lemma fold_max_mem: "(x::nat) \<in> set xs \<Longrightarrow> x \<le> fold max xs m"
proof (induction xs arbitrary: m)
  case Nil
  then show ?case by simp
next
  case (Cons a xs)
  then show ?case
    using fold_max_ge [of "max a m" xs] by auto
qed

lemma nid_less_fresh: "n \<in> set (nodes g) \<Longrightarrow> nid n < fresh_nid g"
  using fold_max_mem [of "nid n" "map nid (nodes g)" 0] by (simp add: fresh_nid_def)

lemma create_new_nodes_eq:
  "create_new_nodes now p rows g =
     (g\<lparr>nodes := nodes g @ map (new_node now p) [fresh_nid g ..< fresh_nid g + length rows]\<rparr>,
      zip rows [fresh_nid g ..< fresh_nid g + length rows])"
proof (induction rows arbitrary: g)
  case Nil
  then show ?case by simp
next
  case (Cons c rows)
  let ?g' = "g\<lparr>nodes := nodes g @ [new_node now p (fresh_nid g)]\<rparr>"
  have f: "fresh_nid ?g' = Suc (fresh_nid g)"
    by (simp add: fresh_nid_def new_node_def)
  show ?case
    by (simp add: create_node_def Cons.IH f new_node_def [symmetric] Let_def upt_conv_Cons
        del: upt_Suc)
qed

lemma fold_create_rel:
  "fold (\<lambda>row. create_rel (f row)) rows g = g\<lparr>rels := rels g @ map f rows\<rparr>"
  by (induction rows arbitrary: g) (simp_all add: create_rel_def)

lemma fold_foreach_clone:
  "fold (foreach_clone now) rows g =
     g\<lparr>rels := rels g @
        map (\<lambda>row. clone_rel now (fst (snd row)) (snd (snd row)))
          (filter (\<lambda>row. rtype (snd (snd row)) = ''RELTYPE'') rows)\<rparr>"
  by (induction rows arbitrary: g) (auto simp: foreach_clone_def create_rel_def)


lemma fresh_nid_cong: "map nid (nodes g') = map nid (nodes g) \<Longrightarrow> fresh_nid g' = fresh_nid g"
  by (simp add: fresh_nid_def)

lemma nodes_update_query:
  "nodes (fst (update_query now p g)) =
     map (retire (map nid (match_current p g))) (nodes g) @
     map (new_node now p)
       [fresh_nid g ..< fresh_nid g + length (match_current p g)]"
proof -
  let ?rows = "map nid (match_current p g)"
  let ?g2 = "fold (set_label ''Historical'') ?rows (fold (remove_label ''Current'') ?rows g)"
  have n2: "nodes ?g2 = map (retire ?rows) (nodes g)"
    by (simp add: fold_set_label fold_remove_label retire_def comp_def cong: if_cong)
  have f2: "fresh_nid ?g2 = fresh_nid g"
    by (rule fresh_nid_cong) (simp add: n2 retire_def comp_def)
  show ?thesis
    by (simp add: update_query_def Let_def create_new_nodes_eq fold_create_rel
        fold_foreach_clone n2 f2 split_def)
qed

lemma rels_update_query:
  "rels (fst (update_query now p g)) =
     rels g @
     map (previous_version now)
       (zip (map nid (match_current p g))
            [fresh_nid g ..< fresh_nid g + length (match_current p g)]) @
     map (\<lambda>row. clone_rel now (fst (snd row)) (snd (snd row)))
       (filter (\<lambda>row. rtype (snd (snd row)) = ''RELTYPE'')
          (match_outgoing
             \<lparr>nodes = [], rels = rels g @ map (previous_version now)
               (zip (map nid (match_current p g))
                    [fresh_nid g ..< fresh_nid g + length (match_current p g)])\<rparr>
             (zip (map nid (match_current p g))
                  [fresh_nid g ..< fresh_nid g + length (match_current p g)])))"
proof -
  let ?rows = "map nid (match_current p g)"
  let ?g2 = "fold (set_label ''Historical'') ?rows (fold (remove_label ''Current'') ?rows g)"
  have n2: "nodes ?g2 = map (retire ?rows) (nodes g)"
    by (simp add: fold_set_label fold_remove_label retire_def comp_def cong: if_cong)
  have f2: "fresh_nid ?g2 = fresh_nid g"
    by (rule fresh_nid_cong) (simp add: n2 retire_def comp_def)
  have r2: "rels ?g2 = rels g"
    by (simp add: fold_set_label fold_remove_label)
  show ?thesis
    by (simp add: update_query_def Let_def create_new_nodes_eq fold_create_rel
        fold_foreach_clone f2 r2 split_def match_outgoing_def)
qed

lemma new_node_no_id: "get_prop (nprops (new_node now p i)) ''id'' = None"
  by (cases "newName p"; cases "newEmail p") (simp_all add: new_node_def get_prop_def)

lemma current_of_update_query:
  "current_of (fst (update_query now p g)) k =
     [c \<leftarrow> current_of g k. nid c \<notin> nid ` set (match_current p g)]"
proof -
  let ?rows = "map nid (match_current p g)"
  let ?P = "\<lambda>c. ''Node'' \<in> labels c \<and> ''Current'' \<in> labels c \<and>
        cy_where (cy_eq (get_prop (nprops c) ''id'') k)"
  have new: "filter ?P (map (new_node now p) is) = []" for "is"
    by (induction "is") (simp_all add: new_node_no_id cy_eq_def cy_where_def)
  have old: "filter ?P (map (retire ?rows) ns) = [c \<leftarrow> filter ?P ns. nid c \<notin> set ?rows]" for ns
    by (induction ns) (auto simp: retire_def)
  show ?thesis
    unfolding current_of_def nodes_update_query filter_append new old
    by simp
qed

lemma cy_or_true: "cy_or a b = Some True \<longleftrightarrow> a = Some True \<or> b = Some True"
  by (cases "(a, b)" rule: cy_or.cases) auto

lemma changed_iff:
  "changed p c \<longleftrightarrow>
     (\<exists>a b. get_prop (nprops c) ''name'' = Some a \<and> newName p = Some b \<and> a \<noteq> b) \<or>
     (\<exists>a b. get_prop (nprops c) ''email'' = Some a \<and> newEmail p = Some b \<and> a \<noteq> b)"
  unfolding changed_def cy_where_def cy_or_true
  by (auto simp: cy_neq_def split: option.splits)

lemma update_query_no_match:
  "match_current p g = [] \<Longrightarrow> update_query now p g = (g, [])"
  by (simp add: update_query_def match_outgoing_def)

text \<open>
  C3. When every current node of the lineage holds the incoming \<open>name\<close> and
  \<open>email\<close>, the update changes nothing: the store is returned as it was (no node, no
  label, no relationship is added or removed) and no row is returned.  A second run of
  the same update is again the identity, so the lineage keeps the entities it had.
\<close>

theorem C3_unchanged_noop:
  assumes "\<forall>c \<in> set (current_of g (nodeId p)).
             get_prop (nprops c) ''name'' = newName p \<and>
             get_prop (nprops c) ''email'' = newEmail p"
  shows "update_query now p g = (g, []) \<and>
         update_query now' p (fst (update_query now p g)) = (g, []) \<and>
         lineage (fst (update_query now' p (fst (update_query now p g)))) (nodeId p) =
           lineage g (nodeId p)"
proof -
  have "\<not> changed p c" if "c \<in> set (current_of g (nodeId p))" for c
    using assms that by (auto simp: changed_iff)
  then have "match_current p g = []"
    by (auto simp: match_current_def filter_empty_conv)
  then have "update_query now p g = (g, [])" "update_query now' p g = (g, [])"
    by (rule update_query_no_match)+
  then show ?thesis by simp
qed

lemma get_new_name:
  "get_prop (mk_props [(''name'', a), (''email'', b), (''createdAt'', Some c)]) ''name'' = a"
  by (cases a; cases b) (simp_all add: get_prop_def)

lemma get_new_email:
  "get_prop (mk_props [(''name'', a), (''email'', b), (''createdAt'', Some c)]) ''email'' = b"
  by (cases a; cases b) (simp_all add: get_prop_def)

lemma current_of_subset: "set (current_of g k) \<subseteq> set (nodes g)"
  by (auto simp: current_of_def)

lemma filter_nid_unique:
  assumes "distinct (map nid ns)" "n \<in> set ns"
  shows "[m \<leftarrow> ns. nid m = nid n] = [n]"
  using assms
proof (induction ns)
  case Nil
  then show ?case by simp
next
  case (Cons a ns)
  show ?case
  proof (cases "a = n")
    case True
    with Cons.prems have "nid n \<notin> nid ` set ns" by simp
    then have "\<forall>m \<in> set ns. nid m \<noteq> nid n" by (metis imageI)
    with True show ?thesis by (simp add: filter_empty_conv)
  next
    case False
    with Cons show ?thesis by auto
  qed
qed

lemma branch_nodes:
  assumes wf: "wf_graph g" and m: "match_current p g = [old]"
  shows "nodes (fst (update_query now p g)) =
     map (\<lambda>n. if nid n = nid old
               then n\<lparr>labels := insert ''Historical'' (labels n - {''Current''})\<rparr> else n) (nodes g) @
     [new_node now p (fresh_nid g)]"
  by (simp add: nodes_update_query m retire_def)

lemma branch_rels:
  assumes wf: "wf_graph g" and m: "match_current p g = [old]"
  shows "rels (fst (update_query now p g)) =
     rels g @
     [\<lparr>rsrc = fresh_nid g, rtgt = nid old, rtype = ''PREVIOUS_VERSION'',
        rprops = [(''from'', VInt now)]\<rparr>] @
     map (clone_rel now (fresh_nid g))
       [r \<leftarrow> rels g. rsrc r = nid old \<and> rtype r = ''RELTYPE'']"
proof -
  have "old \<in> set (nodes g)"
    using m current_of_subset [of g "nodeId p"]
    by (metis filter_is_subset list.set_intros(1) match_current_def subsetD)
  then have ne: "fresh_nid g \<noteq> nid old"
    using nid_less_fresh by fastforce
  have c: "map (\<lambda>row. clone_rel now (fst (snd row)) (snd (snd row)))
         (filter (\<lambda>row. rtype (snd (snd row)) = ''RELTYPE'')
           (concat (map (\<lambda>r. if rsrc r = c
                 then if rtype r \<noteq> ''PREVIOUS_VERSION'' then [(c, n, r)] else []
                 else []) rs))) =
       map (clone_rel now n) (filter (\<lambda>r. rsrc r = c \<and> rtype r = ''RELTYPE'') rs)"
    for c n rs
    by (induction rs) auto
  show ?thesis
    using ne
    by (simp add: rels_update_query m match_outgoing_def previous_version_def c)
qed

lemma match_current_single:
  assumes "current_of g (nodeId p) = [old]" "changed p old"
  shows "match_current p g = [old]"
  using assms by (simp add: match_current_def)

lemma old_in_nodes:
  assumes "current_of g k = [old]"
  shows "old \<in> set (nodes g)"
  using assms current_of_subset [of g k] by auto

lemma wf_rsrc_not_fresh:
  assumes "wf_graph g" "r \<in> set (rels g)"
  shows "rsrc r \<noteq> fresh_nid g"
proof -
  from assms have "rsrc r \<in> nid ` set (nodes g)"
    by (simp add: wf_graph_def list_all_iff)
  then obtain n where "n \<in> set (nodes g)" "rsrc r = nid n"
    by (rule imageE)
  then show ?thesis
    using nid_less_fresh [of n g] by simp
qed

text \<open>
  The branch step, where the query's comparison sees the change.  In a well-formed
  store where lineage \<open>id\<close> has one current node \<open>old\<close>, and \<open>name\<close> or \<open>email\<close>
  has a value on both sides and the two values differ: after the update \<open>old\<close> has
  lost \<open>Current\<close> and gained \<open>Historical\<close> and is otherwise unchanged; exactly one node
  is new, it is labelled \<open>Node\<close> and \<open>Current\<close> and holds the incoming \<open>name\<close> and
  \<open>email\<close>; and exactly one \<open>PREVIOUS_VERSION\<close> relationship leaves the new node, to
  \<open>old\<close>.
\<close>

lemma branch_when_values_differ:
  assumes wf: "wf_graph g"
    and cur: "current_of g (nodeId p) = [old]"
    and ch: "(\<exists>a b. get_prop (nprops old) ''name'' = Some a \<and> newName p = Some b \<and> a \<noteq> b) \<or>
             (\<exists>a b. get_prop (nprops old) ''email'' = Some a \<and> newEmail p = Some b \<and> a \<noteq> b)"
  shows "[n \<leftarrow> nodes (fst (update_query now p g)). nid n = nid old] =
           [old\<lparr>labels := insert ''Historical'' (labels old - {''Current''})\<rparr>] \<and>
         [n \<leftarrow> nodes (fst (update_query now p g)). nid n \<notin> nid ` set (nodes g)] =
           [\<lparr>nid = fresh_nid g, labels = {''Node'', ''Current''},
             nprops = mk_props [(''name'', newName p), (''email'', newEmail p),
                                (''createdAt'', Some (VInt now))]\<rparr>] \<and>
         get_prop (mk_props [(''name'', newName p), (''email'', newEmail p),
                             (''createdAt'', Some (VInt now))]) ''name'' = newName p \<and>
         get_prop (mk_props [(''name'', newName p), (''email'', newEmail p),
                             (''createdAt'', Some (VInt now))]) ''email'' = newEmail p \<and>
         [r \<leftarrow> rels (fst (update_query now p g)).
              rtype r = ''PREVIOUS_VERSION'' \<and> rsrc r = fresh_nid g] =
           [\<lparr>rsrc = fresh_nid g, rtgt = nid old, rtype = ''PREVIOUS_VERSION'',
             rprops = [(''from'', VInt now)]\<rparr>]"
proof -
  have m: "match_current p g = [old]"
    using cur ch by (intro match_current_single) (simp_all add: changed_iff)
  have old: "old \<in> set (nodes g)"
    by (rule old_in_nodes [OF cur])
  have d: "distinct (map nid (nodes g))"
    using wf by (simp add: wf_graph_def)
  have fresh: "fresh_nid g \<notin> nid ` set (nodes g)"
    using nid_less_fresh [of _ g] by fastforce
  have ne: "fresh_nid g \<noteq> nid old"
    using fresh old by auto
  let ?F = "\<lambda>n. if nid n = nid old
               then n\<lparr>labels := insert ''Historical'' (labels n - {''Current''})\<rparr> else n"
  have nidF: "nid (?F n) = nid n" for n by simp
  have a: "[n \<leftarrow> map ?F (nodes g). nid n = nid old] = map ?F [n \<leftarrow> nodes g. nid n = nid old]"
    by (simp add: filter_map comp_def cong: if_cong)
  have "nid (?F n) \<in> nid ` set (nodes g)" if "n \<in> set (nodes g)" for n
    using that by (simp only: nidF) (rule imageI)
  then have b: "[n \<leftarrow> map ?F (nodes g). nid n \<notin> nid ` set (nodes g)] = []"
    unfolding filter_empty_conv by (metis (no_types, lifting) imageE list.set_map)
  have src: "rsrc r \<noteq> fresh_nid g" if "r \<in> set (rels g)" for r
    by (rule wf_rsrc_not_fresh [OF wf that])
  have c: "[r \<leftarrow> rels g. rtype r = ''PREVIOUS_VERSION'' \<and> rsrc r = fresh_nid g] = []"
    using src by (auto simp: filter_empty_conv)
  have e: "[r \<leftarrow> map (clone_rel now (fresh_nid g)) rs.
              rtype r = ''PREVIOUS_VERSION'' \<and> rsrc r = fresh_nid g] = []" for rs
    by (auto simp: filter_empty_conv clone_rel_def)
  show ?thesis
    using ne fresh
    by (simp add: branch_nodes [OF wf m] branch_rels [OF wf m] a b c e
        filter_nid_unique [OF d old] new_node_def get_new_name get_new_email)
qed

text \<open>
  What the query does to relationships on a branch of \<open>old\<close> to the new node: the
  relationships that leave the new node, other than \<open>PREVIOUS_VERSION\<close>, are the copies
  of the outgoing relationships of \<open>old\<close> of type \<open>RELTYPE\<close>, one each and in their
  order, with the same target and type \<open>RELTYPE\<close>.  The properties the query leaves
  on a copy are the original's without \<open>from\<close> and \<open>to\<close>: the \<open>from\<close> written by
  \<open>CREATE\<close> does not survive the \<open>SET\<close> and \<open>REMOVE\<close> that follow it.  The
  relationships of the store before the query, those of \<open>old\<close> among them, are
  unchanged.
\<close>

lemma carry_forward_reltype:
  assumes wf: "wf_graph g"
    and cur: "current_of g (nodeId p) = [old]"
    and ch: "changed p old"
  shows "[r \<leftarrow> rels (fst (update_query now p g)).
              rsrc r = fresh_nid g \<and> rtype r \<noteq> ''PREVIOUS_VERSION''] =
           map (\<lambda>r. \<lparr>rsrc = fresh_nid g, rtgt = rtgt r, rtype = ''RELTYPE'',
                      rprops = remove_key ''to'' (remove_key ''from'' (rprops r))\<rparr>)
             [r \<leftarrow> rels g. rsrc r = nid old \<and> rtype r = ''RELTYPE''] \<and>
         [r \<leftarrow> rels (fst (update_query now p g)). rsrc r = nid old] =
           [r \<leftarrow> rels g. rsrc r = nid old] \<and>
         take (length (rels g)) (rels (fst (update_query now p g))) = rels g"
proof -
  have m: "match_current p g = [old]"
    by (rule match_current_single [OF cur ch])
  have old: "old \<in> set (nodes g)"
    by (rule old_in_nodes [OF cur])
  have fresh: "fresh_nid g \<notin> nid ` set (nodes g)"
    using nid_less_fresh [of _ g] by fastforce
  have ne: "fresh_nid g \<noteq> nid old"
    using fresh old by auto
  have src: "rsrc r \<noteq> fresh_nid g" if "r \<in> set (rels g)" for r
    by (rule wf_rsrc_not_fresh [OF wf that])
  have c: "[r \<leftarrow> rels g. rsrc r = fresh_nid g \<and> rtype r \<noteq> ''PREVIOUS_VERSION''] = []"
    using src by (auto simp: filter_empty_conv)
  have e: "[r \<leftarrow> map (clone_rel now (fresh_nid g)) rs.
              rsrc r = fresh_nid g \<and> rtype r \<noteq> ''PREVIOUS_VERSION''] =
           map (\<lambda>r. \<lparr>rsrc = fresh_nid g, rtgt = rtgt r, rtype = ''RELTYPE'',
                      rprops = remove_key ''to'' (remove_key ''from'' (rprops r))\<rparr>) rs" for rs
    by (induction rs) (simp_all add: clone_rel_def)
  have f: "[r \<leftarrow> map (clone_rel now (fresh_nid g)) rs. rsrc r = nid old] = []" for rs
    using ne by (auto simp: filter_empty_conv clone_rel_def)
  show ?thesis
    using ne
    by (simp add: branch_rels [OF wf m] c e f)
qed

subsection \<open>Version update: what every run preserves\<close>

text \<open>
  The current nodes of a lineage after the query are current nodes it had before: the
  matched ones lose the label and the new nodes carry no \<open>id\<close>.  So a lineage never
  gains a current node, whatever updates run, and running the same update again changes
  nothing.
\<close>

lemma update_keeps_at_most_one_current:
  "length (current_of (fst (update_query now p g)) k) \<le> length (current_of g k)"
  by (simp add: current_of_update_query)

lemma update_second_run_noop:
  "update_query now' p (fst (update_query now p g)) = (fst (update_query now p g), [])"
proof -
  let ?g' = "fst (update_query now p g)"
  have "match_current p ?g' =
      [c \<leftarrow> current_of g (nodeId p). changed p c \<and> nid c \<notin> nid ` set (match_current p g)]"
    by (simp add: match_current_def current_of_update_query conj_commute)
  also have "\<dots> = []"
    by (auto simp: filter_empty_conv match_current_def)
  finally show ?thesis
    by (rule update_query_no_match)
qed


lemma updates_keep_at_most_one_current:
  "length (current_of (apply_updates us g) k) \<le> length (current_of g k)"
proof (induction us arbitrary: g)
  case Nil
  then show ?case by simp
next
  case (Cons u us)
  have "length (current_of (apply_updates (u # us) g) k) \<le>
        length (current_of (fst (update_query (fst u) (snd u) g)) k)"
    by (simp add: Cons.IH)
  also have "\<dots> \<le> length (current_of g k)"
    by (rule update_keeps_at_most_one_current)
  finally show ?case .
qed

subsection \<open>Version update: a worked store\<close>

lemmas update_defs =
  update_query_def match_current_def current_of_def changed_def cy_where_def cy_eq_def
  cy_neq_def get_prop_def remove_label_def set_label_def create_node_def fresh_nid_def
  create_rel_def previous_version_def match_outgoing_def foreach_clone_def clone_rel_def
  remove_key_def insert_Diff_if

lemmas example_defs =
  example_store_def example_old_def example_update_def same_update_def next_update_def
  nameless_store_def nameless_old_def empty_store_def

lemma example_branch:
  "update_query 1000 example_update example_store =
     (\<lparr>nodes = [\<lparr>nid = 0, labels = {''Historical'', ''Node''},
                 nprops = [(''id'', VInt 1), (''name'', VStr ''a''), (''email'', VStr ''x'')]\<rparr>,
               \<lparr>nid = 1, labels = {''Team''}, nprops = []\<rparr>,
               \<lparr>nid = 2, labels = {''Node'', ''Current''},
                 nprops = [(''name'', VStr ''b''), (''email'', VStr ''x''),
                           (''createdAt'', VInt 1000)]\<rparr>],
       rels = [\<lparr>rsrc = 0, rtgt = 1, rtype = ''RELTYPE'',
                rprops = [(''from'', VInt 5), (''role'', VStr ''lead'')]\<rparr>,
               \<lparr>rsrc = 0, rtgt = 1, rtype = ''LINKED_TO'', rprops = []\<rparr>,
               \<lparr>rsrc = 2, rtgt = 0, rtype = ''PREVIOUS_VERSION'',
                rprops = [(''from'', VInt 1000)]\<rparr>,
               \<lparr>rsrc = 2, rtgt = 1, rtype = ''RELTYPE'',
                rprops = [(''role'', VStr ''lead'')]\<rparr>]\<rparr>,
      [2, 2])"
  by (simp add: example_defs update_defs)

lemma example_wf: "wf_graph example_store"
  by (simp add: wf_graph_def example_defs)

lemma example_current: "current_of example_store (nodeId example_update) = [example_old]"
  by (simp add: example_defs update_defs)

lemma example_fresh: "fresh_nid example_store = 2"
  by (simp add: example_defs fresh_nid_def)

text \<open>
  C1. After one branch no node labelled \<open>Current\<close> carries the lineage's \<open>id\<close>: the
  new node is created without it.  A later update of the lineage matches nothing.
\<close>

theorem C1_branch_loses_current:
  "current_of example_store (Some (VInt 1)) = [example_old] \<and>
   current_of (fst (update_query 1000 example_update example_store)) (Some (VInt 1)) = [] \<and>
   update_query 2000 next_update (fst (update_query 1000 example_update example_store)) =
     (fst (update_query 1000 example_update example_store), [])"
proof -
  have a: "current_of example_store (Some (VInt 1)) = [example_old]"
    by (simp add: example_defs update_defs)
  have b: "current_of (fst (update_query 1000 example_update example_store)) (Some (VInt 1)) = []"
    by (simp add: example_branch) (simp add: update_defs)
  have c: "update_query 2000 next_update (fst (update_query 1000 example_update example_store)) =
     (fst (update_query 1000 example_update example_store), [])"
    by (simp add: example_branch) (simp add: update_defs example_defs)
  from a b c show ?thesis by simp
qed

lemma branch_example:
  "wf_graph example_store \<and>
   current_of example_store (nodeId example_update) = [example_old] \<and>
   get_prop (nprops example_old) ''name'' = Some (VStr ''a'') \<and>
   newName example_update = Some (VStr ''b'') \<and> VStr ''a'' \<noteq> VStr ''b'' \<and>
   [n \<leftarrow> nodes (fst (update_query 1000 example_update example_store)). nid n = 0] =
     [\<lparr>nid = 0, labels = {''Historical'', ''Node''},
       nprops = [(''id'', VInt 1), (''name'', VStr ''a''), (''email'', VStr ''x'')]\<rparr>] \<and>
   [r \<leftarrow> rels (fst (update_query 1000 example_update example_store)).
        rtype r = ''PREVIOUS_VERSION'' \<and> rsrc r = 2] =
     [\<lparr>rsrc = 2, rtgt = 0, rtype = ''PREVIOUS_VERSION'', rprops = [(''from'', VInt 1000)]\<rparr>]"
proof -
  have n: "get_prop (nprops example_old) ''name'' = Some (VStr ''a'')"
    and u: "newName example_update = Some (VStr ''b'')"
    by (simp_all add: example_defs get_prop_def)
  have ch: "(\<exists>a b. get_prop (nprops example_old) ''name'' = Some a \<and>
                newName example_update = Some b \<and> a \<noteq> b) \<or>
            (\<exists>a b. get_prop (nprops example_old) ''email'' = Some a \<and>
                newEmail example_update = Some b \<and> a \<noteq> b)"
    using n u by simp
  note th = branch_when_values_differ [OF example_wf example_current ch, of 1000]
  have old: "[n \<leftarrow> nodes (fst (update_query 1000 example_update example_store)).
               nid n = nid example_old] =
             [example_old\<lparr>labels := insert ''Historical'' (labels example_old - {''Current''})\<rparr>]"
    using th by blast
  have pv: "[r \<leftarrow> rels (fst (update_query 1000 example_update example_store)).
               rtype r = ''PREVIOUS_VERSION'' \<and> rsrc r = fresh_nid example_store] =
            [\<lparr>rsrc = fresh_nid example_store, rtgt = nid example_old,
              rtype = ''PREVIOUS_VERSION'', rprops = [(''from'', VInt 1000)]\<rparr>]"
    using th by blast
  show ?thesis
  proof (intro conjI)
    show "wf_graph example_store" by (rule example_wf)
    show "current_of example_store (nodeId example_update) = [example_old]"
      by (rule example_current)
    show "get_prop (nprops example_old) ''name'' = Some (VStr ''a'')" by (rule n)
    show "newName example_update = Some (VStr ''b'')" by (rule u)
    show "VStr ''a'' \<noteq> VStr ''b''" by simp
    show "[n \<leftarrow> nodes (fst (update_query 1000 example_update example_store)). nid n = 0] =
     [\<lparr>nid = 0, labels = {''Historical'', ''Node''},
       nprops = [(''id'', VInt 1), (''name'', VStr ''a''), (''email'', VStr ''x'')]\<rparr>]"
      using old by (simp add: example_old_def insert_Diff_if)
    show "[r \<leftarrow> rels (fst (update_query 1000 example_update example_store)).
        rtype r = ''PREVIOUS_VERSION'' \<and> rsrc r = 2] =
     [\<lparr>rsrc = 2, rtgt = 0, rtype = ''PREVIOUS_VERSION'', rprops = [(''from'', VInt 1000)]\<rparr>]"
      using pv by (simp add: example_fresh) (simp add: example_old_def)
  qed
qed

text \<open>
  C2. The current node of lineage 1 has \<open>email\<close> and no \<open>name\<close>; the update gives
  all three parameters and brings the name \<open>b\<close>, so the properties differ.  The
  comparison of the missing \<open>name\<close> with \<open>b\<close> is null, the other one is false, and the
  \<open>WHERE\<close> drops the row: no branch is made.  The node keeps \<open>Current\<close>, and no node
  and no \<open>PREVIOUS_VERSION\<close> relationship is created.
\<close>

theorem C2_missing_name_not_branched:
  "wf_graph nameless_store \<and>
   current_of nameless_store (nodeId example_update) = [nameless_old] \<and>
   example_update =
     \<lparr>nodeId = Some (VInt 1), newName = Some (VStr ''b''), newEmail = Some (VStr ''x'')\<rparr> \<and>
   get_prop (nprops nameless_old) ''name'' = None \<and>
   get_prop (nprops nameless_old) ''email'' = Some (VStr ''x'') \<and>
   changed example_update nameless_old = False \<and>
   update_query 1000 example_update nameless_store = (nameless_store, [])"
  by (simp add: example_defs update_defs wf_graph_def)

theorem C3_unchanged_noop_witness:
  "current_of example_store (nodeId same_update) = [example_old] \<and>
   get_prop (nprops example_old) ''name'' = newName same_update \<and>
   get_prop (nprops example_old) ''email'' = newEmail same_update \<and>
   update_query 1000 same_update example_store = (example_store, []) \<and>
   update_query 2000 same_update (fst (update_query 1000 same_update example_store)) =
     (example_store, [])"
proof -
  have cur: "current_of example_store (nodeId same_update) = [example_old]"
    by (simp add: example_defs update_defs)
  have eq: "get_prop (nprops example_old) ''name'' = newName same_update"
    "get_prop (nprops example_old) ''email'' = newEmail same_update"
    by (simp_all add: example_defs get_prop_def)
  have h: "\<forall>c \<in> set (current_of example_store (nodeId same_update)).
             get_prop (nprops c) ''name'' = newName same_update \<and>
             get_prop (nprops c) ''email'' = newEmail same_update"
    using cur eq by simp
  note th = C3_unchanged_noop [OF h, of 1000 2000]
  from th have a: "update_query 1000 same_update example_store = (example_store, [])"
    by blast
  from th have b: "update_query 2000 same_update
      (fst (update_query 1000 same_update example_store)) = (example_store, [])"
    by blast
  from cur eq a b show ?thesis by blast
qed

lemma carry_forward_example:
  "wf_graph example_store \<and>
   current_of example_store (nodeId example_update) = [example_old] \<and>
   changed example_update example_old \<and>
   [r \<leftarrow> rels (fst (update_query 1000 example_update example_store)).
        rsrc r = 2 \<and> rtype r \<noteq> ''PREVIOUS_VERSION''] =
     [\<lparr>rsrc = 2, rtgt = 1, rtype = ''RELTYPE'', rprops = [(''role'', VStr ''lead'')]\<rparr>] \<and>
   [r \<leftarrow> rels (fst (update_query 1000 example_update example_store)). rsrc r = 0] =
     [\<lparr>rsrc = 0, rtgt = 1, rtype = ''RELTYPE'',
       rprops = [(''from'', VInt 5), (''role'', VStr ''lead'')]\<rparr>,
      \<lparr>rsrc = 0, rtgt = 1, rtype = ''LINKED_TO'', rprops = []\<rparr>]"
proof -
  have ch: "changed example_update example_old"
    by (simp add: example_defs update_defs)
  note th = carry_forward_reltype [OF example_wf example_current ch, of 1000]
  have a: "[r \<leftarrow> rels (fst (update_query 1000 example_update example_store)).
              rsrc r = fresh_nid example_store \<and> rtype r \<noteq> ''PREVIOUS_VERSION''] =
           map (\<lambda>r. \<lparr>rsrc = fresh_nid example_store, rtgt = rtgt r, rtype = ''RELTYPE'',
                      rprops = remove_key ''to'' (remove_key ''from'' (rprops r))\<rparr>)
             [r \<leftarrow> rels example_store. rsrc r = nid example_old \<and> rtype r = ''RELTYPE'']"
    using th by blast
  have b: "[r \<leftarrow> rels (fst (update_query 1000 example_update example_store)).
              rsrc r = nid example_old] =
           [r \<leftarrow> rels example_store. rsrc r = nid example_old]"
    using th by blast
  show ?thesis
  proof (intro conjI)
    show "wf_graph example_store" by (rule example_wf)
    show "current_of example_store (nodeId example_update) = [example_old]"
      by (rule example_current)
    show "changed example_update example_old" by (rule ch)
    show "[r \<leftarrow> rels (fst (update_query 1000 example_update example_store)).
        rsrc r = 2 \<and> rtype r \<noteq> ''PREVIOUS_VERSION''] =
     [\<lparr>rsrc = 2, rtgt = 1, rtype = ''RELTYPE'', rprops = [(''role'', VStr ''lead'')]\<rparr>]"
      using a by (simp add: example_fresh) (simp add: example_defs remove_key_def)
    show "[r \<leftarrow> rels (fst (update_query 1000 example_update example_store)). rsrc r = 0] =
     [\<lparr>rsrc = 0, rtgt = 1, rtype = ''RELTYPE'',
       rprops = [(''from'', VInt 5), (''role'', VStr ''lead'')]\<rparr>,
      \<lparr>rsrc = 0, rtgt = 1, rtype = ''LINKED_TO'', rprops = []\<rparr>]"
      using b by (simp add: example_defs)
  qed
qed

text \<open>
  C4. On the branch of the worked store the \<open>RELTYPE\<close> relationship of the old node,
  which holds \<open>from = 5\<close> and a \<open>role\<close>, is copied to the new node, and the copy
  has no \<open>from\<close> property: the stamp \<open>from: timestamp()\<close> written by \<open>CREATE\<close> is
  replaced by \<open>SET newRel = properties(rel)\<close> and then removed by
  \<open>REMOVE newRel.from\<close>.  The copy is the last relationship of the store.
\<close>

theorem C4_clone_without_from_stamp:
  "match_current example_update example_store = [example_old] \<and>
   rels (fst (update_query 1000 example_update example_store)) =
     [\<lparr>rsrc = 0, rtgt = 1, rtype = ''RELTYPE'',
       rprops = [(''from'', VInt 5), (''role'', VStr ''lead'')]\<rparr>,
      \<lparr>rsrc = 0, rtgt = 1, rtype = ''LINKED_TO'', rprops = []\<rparr>,
      \<lparr>rsrc = 2, rtgt = 0, rtype = ''PREVIOUS_VERSION'', rprops = [(''from'', VInt 1000)]\<rparr>,
      \<lparr>rsrc = 2, rtgt = 1, rtype = ''RELTYPE'', rprops = [(''role'', VStr ''lead'')]\<rparr>] \<and>
   get_prop (rprops (last (rels (fst (update_query 1000 example_update example_store)))))
     ''from'' = None"
proof -
  have "match_current example_update example_store = [example_old]"
    by (simp add: example_defs update_defs)
  then show ?thesis
    by (simp add: example_branch get_prop_def)
qed

subsection \<open>Chain-weighted difference\<close>

lemma average_difference_query_rejected:
  "average_difference_query g = Inl (VariableNotDefined ''chain_length'')"
  by (simp add: average_difference_query_def average_difference_clauses_def)

text \<open>
  C5. The query does not return the mean absolute step of a chain: the third clause uses
  \<open>chain_length\<close> in the clause that introduces it, where it is not yet in scope (and
  the \<open>RETURN\<close> uses it after a \<open>WITH\<close> that dropped it), so the query is rejected
  for every store, here for the chain of values 10, 12, 9.
\<close>

theorem C5_chain_query_rejected:
  "map (node_value chain_store) [0, 1, 2] = [Some (VInt 10), Some (VInt 12), Some (VInt 9)] \<and>
   linked_to chain_store 0 = [1, 2] \<and>
   average_difference_query chain_store = Inl (VariableNotDefined ''chain_length'')"
  by (simp add: average_difference_query_rejected)
    (simp add: chain_store_def node_value_def get_prop_def linked_to_def upt_rec numeral_2_eq_2)

text \<open>
  C6. For a chain of one link, where the divisor would be 1, the query returns no
  result either: it is rejected like every other run.
\<close>

theorem C6_single_link_rejected:
  "linked_to link_store 0 = [1] \<and>
   average_difference_query link_store = Inl (VariableNotDefined ''chain_length'')"
  by (simp add: average_difference_query_rejected)
    (simp add: link_store_def linked_to_def)

text \<open>
  What the expressions compute once the variable is in scope: the divisor is never
  zero and is 1 for a list of at most one value, a single value gives \<open>0 / 1\<close>, and the
  division is integer division, so the values 10, 12, 9 give \<open>5 / 2 = 2\<close>.  The values
  of a row are those of the nodes reached from \<open>n\<close>, without \<open>n\<close> itself.
\<close>

lemma divisor_positive: "1 \<le> divisor chain_length"
  by (simp add: divisor_def)

lemma divisor_short: "chain_length \<le> 1 \<Longrightarrow> divisor chain_length = 1"
  by (simp add: divisor_def)

lemma average_difference_single: "average_difference [Some (VInt a)] = Inr (Some 0)"
  by (simp add: average_difference_def differences_def total_difference_def divisor_def)

lemma average_difference_example:
  "average_difference [Some (VInt 10), Some (VInt 12), Some (VInt 9)] = Inr (Some 2)"
  by (simp add: average_difference_def differences_def value_at_def total_difference_def
      divisor_def upto.simps)

lemma average_rows_chain_store:
  "average_rows chain_store = Inr [(0, 1, Some 3), (0, 2, Some 3), (1, 2, Some 0)]"
  by (simp add: average_rows_def chain_store_def linked_to_def node_value_def get_prop_def
      average_difference_def differences_def value_at_def total_difference_def divisor_def
      upto.simps upt_rec numeral_2_eq_2)

lemma first_error_Inr: "first_error (map (\<lambda>x. Inr (f x)) xs) = Inr (map f xs)"
  by (induction xs) simp_all

lemma total_difference_Some:
  "fold (\<lambda>d total. cy_add total d) (map Some ds) (Some a) = Some (a + sum_list ds)"
  by (induction ds arbitrary: a) simp_all

lemma cy_div_nonneg:
  assumes "0 \<le> a" "0 < b"
  shows "cy_div (Some a) b = Inr (Some (a div b))"
proof (cases "a = 0")
  case True
  with assms show ?thesis by simp
next
  case False
  with assms have "sgn a = 1" "sgn b = 1" by simp_all
  with assms show ?thesis by simp
qed

text \<open>
  On a list of integer values the expressions compute the sum of the absolute steps,
  divided (integer division) by \<open>max 1 (n - 1)\<close>.
\<close>

lemma average_difference_formula:
  "average_difference (map (\<lambda>v. Some (VInt v)) vs) =
     Inr (Some ((\<Sum>i\<leftarrow>[0..int (length vs) - 2]. \<bar>vs ! nat i - vs ! nat (i + 1)\<bar>)
                  div max 1 (int (length vs) - 1)))"
proof -
  let ?vs = "map (\<lambda>v. Some (VInt v)) vs"
  let ?f = "\<lambda>i. \<bar>vs ! nat i - vs ! nat (i + 1)\<bar>"
  have e: "[abs_diff (value_at ?vs i) (value_at ?vs (i + 1)). i \<leftarrow> [0..int (length vs) - 2]] =
        map (\<lambda>i. Inr (Some (?f i))) [0..int (length vs) - 2]"
    by (rule map_cong) (auto simp: value_at_def nat_add_distrib)
  have "differences ?vs (int (length ?vs)) =
        first_error (map (\<lambda>i. Inr (Some (?f i))) [0..int (length vs) - 2])"
    unfolding differences_def length_map e ..
  also have "\<dots> = Inr (map (\<lambda>i. Some (?f i)) [0..int (length vs) - 2])"
    by (rule first_error_Inr)
  finally have d: "differences ?vs (int (length ?vs)) =
      Inr (map Some (map ?f [0..int (length vs) - 2]))"
    by (simp add: comp_def)
  have nn: "0 \<le> sum_list (map ?f [0..int (length vs) - 2])"
    by (rule sum_list_nonneg) auto
  have dv: "divisor (int (length vs)) = max 1 (int (length vs) - 1)" "0 < divisor (int (length vs))"
    by (simp_all add: divisor_def max_def)
  have t: "total_difference (map Some (map ?f [0..int (length vs) - 2])) =
      Some (sum_list (map ?f [0..int (length vs) - 2]))"
    unfolding total_difference_def total_difference_Some by simp
  have "average_difference ?vs =
      cy_div (total_difference (map Some (map ?f [0..int (length vs) - 2])))
        (divisor (int (length vs)))"
    unfolding average_difference_def Let_def d by simp
  also have "\<dots> = Inr (Some (sum_list (map ?f [0..int (length vs) - 2]) div
      divisor (int (length vs))))"
    unfolding t by (rule cy_div_nonneg [OF nn dv(2)])
  finally show ?thesis
    unfolding dv(1) .
qed

subsection \<open>A lineage without a current node\<close>

lemma history_of_fresh:
  assumes "wf_graph g" "rels g' = rels g"
  shows "history_of g' (fresh_nid g) = []"
proof -
  have "rsrc r \<noteq> fresh_nid g" if "r \<in> set (rels g)" for r
    by (rule wf_rsrc_not_fresh [OF assms(1) that])
  then have "[r \<leftarrow> rels g. rsrc r = fresh_nid g] = []"
    by (auto simp: filter_empty_conv)
  moreover have "concat (map (\<lambda>r. if rsrc r = n then F r else []) rs) =
      concat (map F [r \<leftarrow> rs. rsrc r = n])" for n rs and F :: "rel \<Rightarrow> node list"
    by (induction rs) auto
  ultimately show ?thesis
    by (simp add: history_of_def assms(2))
qed

lemma ingest_first_version:
  assumes wf: "wf_graph g"
    and u: "csv_field row ''uniqueProperty'' = Some u"
    and absent: "[n \<leftarrow> nodes g. ''YourLabel'' \<in> labels n \<and>
                    cy_where (cy_eq (get_prop (nprops n) ''uniqueProperty'') (Some u))] = []"
  shows "ingest_query now [row] g =
     Inr (g\<lparr>nodes := nodes g @
       [\<lparr>nid = fresh_nid g, labels = {''CurrentVersion'', ''YourLabel''},
         nprops = (''uniqueProperty'', u) #
                  mk_props [(''property1'', csv_field row ''csvProperty1''),
                            (''property2'', csv_field row ''csvProperty2'')]\<rparr>]\<rparr>)"
proof -
  let ?new = "\<lparr>nid = fresh_nid g, labels = {''YourLabel''}, nprops = [(''uniqueProperty'', u)]\<rparr>"
  let ?g1 = "g\<lparr>nodes := nodes g @ [?new]\<rparr>"
  have m: "merge_rows [row] g = Inr (?g1, [(fresh_nid g, row)])"
    by (simp add: merge_node_def u absent create_node_def Let_def)
  have h: "history_of ?g1 (fresh_nid g) = []"
    by (rule history_of_fresh [OF wf]) simp
  have o: "order_desc_limit1 (optional_match ?g1 [(fresh_nid g, row)]) = [(fresh_nid g, row, None)]"
    by (simp add: optional_match_def h order_desc_limit1_def)
  have ne: "nid n \<noteq> fresh_nid g" if "n \<in> set (nodes g)" for n
    using nid_less_fresh [OF that] by simp
  have "ingest_query now [row] g =
      Inr (set_row (fresh_nid g, row, None) (foreach_version now (fresh_nid g, row, None) ?g1))"
    unfolding ingest_query_def m by (simp add: o Let_def)
  then show ?thesis
    by (cases "csv_field row ''csvProperty1''"; cases "csv_field row ''csvProperty2''")
      (simp_all add: foreach_version_def set_row_def set_prop_def set_label_def
        map_idI ne remove_key_def)
qed

text \<open>
  C9. In a well-formed store: when no node labelled \<open>Node\<close> and \<open>Current\<close>
  carries the \<open>id\<close> of the update, the update query creates nothing, leaves the store as
  it was and returns no row; no error is signalled.  The first version is created by
  the LOAD CSV query: run on one record whose \<open>uniqueProperty\<close> no \<open>YourLabel\<close> node
  holds, it adds exactly one node, labelled \<open>YourLabel\<close> and \<open>CurrentVersion\<close>, holding
  \<open>uniqueProperty\<close> and the record's \<open>property1\<close> and \<open>property2\<close>.
\<close>

theorem C9_absent_lineage:
  assumes "wf_graph g"
  shows "(current_of g (nodeId p) = [] \<longrightarrow> update_query now p g = (g, [])) \<and>
         (csv_field row ''uniqueProperty'' = Some u \<and>
          [n \<leftarrow> nodes g. ''YourLabel'' \<in> labels n \<and>
             cy_where (cy_eq (get_prop (nprops n) ''uniqueProperty'') (Some u))] = [] \<longrightarrow>
          ingest_query now [row] g =
            Inr (g\<lparr>nodes := nodes g @
              [\<lparr>nid = fresh_nid g, labels = {''CurrentVersion'', ''YourLabel''},
                nprops = (''uniqueProperty'', u) #
                         mk_props [(''property1'', csv_field row ''csvProperty1''),
                                   (''property2'', csv_field row ''csvProperty2'')]\<rparr>]\<rparr>))"
proof (intro conjI impI)
  assume "current_of g (nodeId p) = []"
  then have "match_current p g = []"
    by (simp add: match_current_def)
  then show "update_query now p g = (g, [])"
    by (rule update_query_no_match)
next
  assume "csv_field row ''uniqueProperty'' = Some u \<and>
          [n \<leftarrow> nodes g. ''YourLabel'' \<in> labels n \<and>
             cy_where (cy_eq (get_prop (nprops n) ''uniqueProperty'') (Some u))] = []"
  then show "ingest_query now [row] g =
            Inr (g\<lparr>nodes := nodes g @
              [\<lparr>nid = fresh_nid g, labels = {''CurrentVersion'', ''YourLabel''},
                nprops = (''uniqueProperty'', u) #
                         mk_props [(''property1'', csv_field row ''csvProperty1''),
                                   (''property2'', csv_field row ''csvProperty2'')]\<rparr>]\<rparr>)"
    using ingest_first_version [OF assms] by blast
qed

theorem C9_absent_lineage_witness:
  "wf_graph empty_store \<and>
   current_of empty_store (nodeId example_update) = [] \<and>
   csv_field example_record ''uniqueProperty'' = Some (VStr ''m1'') \<and>
   update_query 1000 example_update empty_store = (empty_store, []) \<and>
   ingest_query 1000 [example_record] empty_store =
     Inr \<lparr>nodes = [\<lparr>nid = 1, labels = {''CurrentVersion'', ''YourLabel''},
                     nprops = [(''uniqueProperty'', VStr ''m1''), (''property1'', VStr ''a''),
                               (''property2'', VStr ''x'')]\<rparr>],
          rels = []\<rparr>"
proof -
  have wf: "wf_graph empty_store"
    by (simp add: wf_graph_def empty_store_def)
  have cur: "current_of empty_store (nodeId example_update) = []"
    by (simp add: current_of_def empty_store_def)
  have u: "csv_field example_record ''uniqueProperty'' = Some (VStr ''m1'')"
    by (simp add: csv_field_def example_record_def)
  have absent: "[n \<leftarrow> nodes empty_store. ''YourLabel'' \<in> labels n \<and>
      cy_where (cy_eq (get_prop (nprops n) ''uniqueProperty'') (Some (VStr ''m1'')))] = []"
    by (simp add: empty_store_def)
  note th = C9_absent_lineage [OF wf, of example_update 1000 example_record "VStr ''m1''"]
  have a: "update_query 1000 example_update empty_store = (empty_store, [])"
    using th cur by blast
  have b: "ingest_query 1000 [example_record] empty_store =
      Inr (empty_store\<lparr>nodes := nodes empty_store @
        [\<lparr>nid = fresh_nid empty_store, labels = {''CurrentVersion'', ''YourLabel''},
          nprops = (''uniqueProperty'', VStr ''m1'') #
                   mk_props [(''property1'', csv_field example_record ''csvProperty1''),
                             (''property2'', csv_field example_record ''csvProperty2'')]\<rparr>]\<rparr>)"
    using th u absent by blast
  show ?thesis
  proof (intro conjI)
    show "wf_graph empty_store" by (rule wf)
    show "current_of empty_store (nodeId example_update) = []" by (rule cur)
    show "csv_field example_record ''uniqueProperty'' = Some (VStr ''m1'')" by (rule u)
    show "update_query 1000 example_update empty_store = (empty_store, [])" by (rule a)
    show "ingest_query 1000 [example_record] empty_store =
     Inr \<lparr>nodes = [\<lparr>nid = 1, labels = {''CurrentVersion'', ''YourLabel''},
                     nprops = [(''uniqueProperty'', VStr ''m1''), (''property1'', VStr ''a''),
                               (''property2'', VStr ''x'')]\<rparr>],
          rels = []\<rparr>"
      unfolding b by (simp add: empty_store_def fresh_nid_def csv_field_def example_record_def)
  qed
qed

text \<open>
  The update of a lineage that has no entity: the store stays empty, where the
  specification has a first version created.
\<close>

theorem C9_update_creates_nothing_counterexample:
  "lineage empty_store (nodeId example_update) = [] \<and>
   update_query 1000 example_update empty_store = (\<lparr>nodes = [], rels = []\<rparr>, [])"
  by (simp add: lineage_def empty_store_def update_query_def match_current_def current_of_def
      match_outgoing_def)

text \<open>
  On a file of two new records the \<open>LIMIT 1\<close> keeps one row of the whole result:
  both nodes are created, and only one of them gets its properties and the
  \<open>CurrentVersion\<close> label.
\<close>

lemma ingest_two_records:
  "ingest_query 1000
     [example_record, [(''uniqueProperty'', ''m2''), (''csvProperty1'', ''b'')]] empty_store =
     Inr \<lparr>nodes = [\<lparr>nid = 1, labels = {''CurrentVersion'', ''YourLabel''},
                     nprops = [(''uniqueProperty'', VStr ''m1''), (''property1'', VStr ''a''),
                               (''property2'', VStr ''x'')]\<rparr>,
                   \<lparr>nid = 2, labels = {''YourLabel''},
                     nprops = [(''uniqueProperty'', VStr ''m2'')]\<rparr>],
          rels = []\<rparr>"
  by (simp add: ingest_query_def merge_node_def csv_field_def example_record_def empty_store_def
      create_node_def fresh_nid_def cy_where_def cy_eq_def get_prop_def optional_match_def
      history_of_def order_desc_limit1_def old_version_def foreach_version_def set_row_def
      set_prop_def set_label_def remove_key_def)

subsection \<open>Batched bulk delete\<close>

lemma batch_sizes_step:
  assumes "0 < b" "0 < n"
  shows "batch_sizes b n = min b n # batch_sizes b (n - b)"
proof (cases "b \<le> n")
  case True
  then have "n div b = Suc ((n - b) div b)" "(n - b) mod b = n mod b"
    using assms by (simp_all add: le_div_geq le_mod_geq)
  with True show ?thesis by (simp add: batch_sizes_def min_def)
next
  case False
  with assms show ?thesis by (simp add: batch_sizes_def min_def)
qed

lemma run_batches_result:
  assumes "0 < b"
  shows "\<exists>batches. run_batches b mutate xs s applied =
            Some (rev applied @ batches, fold (\<lambda>e s. mutate s e) xs s) \<and>
          concat batches = xs \<and> map length batches = batch_sizes b (length xs)"
proof (induction "length xs" arbitrary: xs s applied rule: less_induct)
  case less
  show ?case
  proof (cases "xs = []")
    case True
    then show ?thesis
      by (simp add: run_batches.simps batch_sizes_def)
  next
    case False
    then have "length (drop b xs) < length xs"
      using assms by simp
    from less [OF this, of "fold (\<lambda>e s. mutate s e) (take b xs) s" "take b xs # applied"]
    obtain batches where
      r: "run_batches b mutate (drop b xs) (fold (\<lambda>e s. mutate s e) (take b xs) s)
            (take b xs # applied) =
          Some (rev (take b xs # applied) @ batches,
                fold (\<lambda>e s. mutate s e) (drop b xs) (fold (\<lambda>e s. mutate s e) (take b xs) s))"
      and c: "concat batches = drop b xs"
      and l: "map length batches = batch_sizes b (length (drop b xs))"
      by blast
    have f: "fold (\<lambda>e s. mutate s e) (drop b xs) (fold (\<lambda>e s. mutate s e) (take b xs) s) =
        fold (\<lambda>e s. mutate s e) xs s"
      by (metis append_take_drop_id fold_append comp_apply)
    have "run_batches b mutate xs s applied =
        Some (rev applied @ take b xs # batches, fold (\<lambda>e s. mutate s e) xs s)"
      using False r f by (subst run_batches.simps) simp
    moreover have "concat (take b xs # batches) = xs"
      using c by simp
    moreover have "map length (take b xs # batches) = batch_sizes b (length xs)"
      using l False assms by (simp add: batch_sizes_step [of b "length xs"])
    ultimately show ?thesis by blast
  qed
qed

lemma ceil_div:
  assumes "0 < (b::nat)"
  shows "(n + b - 1) div b = n div b + (if n mod b = 0 then 0 else 1)"
proof -
  have h: "(q * b + x) div b = q" if "x < b" for q x
    using that by simp
  define q r where "q = n div b" and "r = n mod b"
  have n: "n = q * b + r" and r: "r < b"
    using assms by (simp_all add: q_def r_def)
  show ?thesis
  proof (cases "r = 0")
    case True
    have "b - 1 < b" using assms by simp
    then have "(q * b + (b - 1)) div b = q" by (rule h)
    moreover have "n + b - 1 = q * b + (b - 1)" using n True assms by simp
    ultimately have "(n + b - 1) div b = q" by simp
    then show ?thesis using True by (simp add: q_def [symmetric] r_def [symmetric])
  next
    case False
    have "r - 1 < b" using r by simp
    then have "(Suc q * b + (r - 1)) div b = Suc q" by (rule h)
    moreover have "n + b - 1 = Suc q * b + (r - 1)" using n False by simp
    ultimately have "(n + b - 1) div b = Suc q" by simp
    then show ?thesis using False by (simp add: q_def [symmetric] r_def [symmetric])
  qed
qed

lemma length_batch_sizes:
  assumes "0 < b"
  shows "length (batch_sizes b n) = (n + b - 1) div b"
proof -
  have "length (batch_sizes b n) = n div b + (if n mod b = 0 then 0 else 1)"
    by (simp add: batch_sizes_def)
  then show ?thesis
    by (simp only: ceil_div [OF assms])
qed

lemma batch_sizes_le:
  assumes "0 < b" "x \<in> set (batch_sizes b n)"
  shows "x \<le> b"
  using assms by (auto simp: batch_sizes_def split: if_splits)

text \<open>
  C10. For a batch size \<open>b > 0\<close> and \<open>n\<close> selected entities the executor returns; it
  applies exactly \<open>ceil(n / b)\<close> batches, none larger than \<open>b\<close>, of sizes \<open>b, ..., b\<close>
  and then the remainder; the batches taken in order are the selection itself, so an
  entity selected once is mutated once; and the final store is the one reached by
  mutating the selected entities one after the other in that order.
\<close>

theorem C10_batches:
  assumes "0 < b"
  shows "\<exists>batches. run_batches b mutate xs s [] = Some (batches, fold (\<lambda>e s. mutate s e) xs s) \<and>
           length batches = (length xs + b - 1) div b \<and>
           (\<forall>batch \<in> set batches. length batch \<le> b) \<and>
           map length batches = batch_sizes b (length xs) \<and>
           concat batches = xs \<and>
           (distinct xs \<longrightarrow> distinct (concat batches))"
proof -
  from run_batches_result [OF assms, of mutate xs s "[]"]
  obtain batches where
    r: "run_batches b mutate xs s [] = Some (batches, fold (\<lambda>e s. mutate s e) xs s)"
    and c: "concat batches = xs"
    and l: "map length batches = batch_sizes b (length xs)"
    by auto
  have "length batches = length (map length batches)" by simp
  also have "\<dots> = (length xs + b - 1) div b"
    unfolding l by (rule length_batch_sizes [OF assms])
  finally have n: "length batches = (length xs + b - 1) div b" .
  have s: "length batch \<le> b" if "batch \<in> set batches" for batch
  proof -
    from that have "length batch \<in> set (map length batches)" by simp
    then show ?thesis
      unfolding l by (rule batch_sizes_le [OF assms])
  qed
  from r n s l c show ?thesis by auto
qed

theorem C10_batches_witness:
  "(0::nat) < 500 \<and>
   (\<exists>batches g'. bulk_delete big_store = Some (batches, g') \<and>
      length (match_all big_store) = 1237 \<and>
      length batches = 3 \<and> map length batches = [500, 500, 237] \<and>
      concat batches = match_all big_store \<and> distinct (concat batches))"
proof -
  have len: "length (match_all big_store) = 1237"
    by (simp add: match_all_def big_store_def)
  have d: "distinct (match_all big_store)"
    by (simp add: match_all_def big_store_def comp_def)
  have sz: "batch_sizes 500 1237 = [500, 500, 237]"
    by (simp add: batch_sizes_def numeral_2_eq_2)
  have pos: "(0::nat) < 500" by simp
  from C10_batches [OF pos, of detach_delete "match_all big_store" big_store]
  obtain batches where
    "run_batches 500 detach_delete (match_all big_store) big_store [] =
       Some (batches, fold (\<lambda>e s. detach_delete s e) (match_all big_store) big_store)"
    "length batches = (length (match_all big_store) + 500 - 1) div 500"
    "map length batches = batch_sizes 500 (length (match_all big_store))"
    "concat batches = match_all big_store"
    by blast
  with len d sz show ?thesis
    by (auto simp: bulk_delete_def)
qed

lemma fold_detach_delete:
  "fold (\<lambda>e s. detach_delete s e) is g =
     \<lparr>nodes = [n \<leftarrow> nodes g. nid n \<notin> set is],
      rels = [r \<leftarrow> rels g. rsrc r \<notin> set is \<and> rtgt r \<notin> set is]\<rparr>"
proof (induction "is" arbitrary: g)
  case Nil
  then show ?case by simp
next
  case (Cons i "is")
  show ?case
    by (simp add: Cons.IH) (auto simp: detach_delete_def intro: filter_cong)
qed

text \<open>
  The bulk delete of the repository: on a well-formed store it returns, and leaves no
  node and no relationship.
\<close>

lemma bulk_delete_empties:
  assumes "wf_graph g"
  shows "\<exists>batches. bulk_delete g = Some (batches, \<lparr>nodes = [], rels = []\<rparr>) \<and>
           concat batches = match_all g \<and>
           map length batches = batch_sizes 500 (length (nodes g))"
proof -
  have pos: "(0::nat) < 500" by simp
  from run_batches_result [OF pos, of detach_delete "match_all g" g "[]"]
  obtain batches where
    r: "run_batches 500 detach_delete (match_all g) g [] =
       Some (batches, fold (\<lambda>e s. detach_delete s e) (match_all g) g)"
    and c: "concat batches = match_all g"
    and l: "map length batches = batch_sizes 500 (length (match_all g))"
    by auto
  have "[n \<leftarrow> nodes g. nid n \<notin> set (match_all g)] = []"
    by (auto simp: filter_empty_conv match_all_def)
  moreover have "[r \<leftarrow> rels g. rsrc r \<notin> set (match_all g) \<and> rtgt r \<notin> set (match_all g)] = []"
    using assms by (auto simp: filter_empty_conv match_all_def wf_graph_def list_all_iff)
  ultimately have "fold (\<lambda>e s. detach_delete s e) (match_all g) g = \<lparr>nodes = [], rels = []\<rparr>"
    by (simp add: fold_detach_delete)
  with r c l show ?thesis
    by (auto simp: bulk_delete_def match_all_def)
qed

end
